theory Spec2Isabelle
  imports Main "HOL-Library.Sublist"
begin

section \<open>The chunker\<close>

text \<open>
  A Python \<open>str\<close> is a sequence of code points; \<open>chunk_text\<close> never looks inside a
  character, so the text is a list over any character type. \<open>chunk_size\<close> and
  \<open>overlap\<close> are Python integers: unbounded and possibly negative.

  \<open>text[i:j]\<close> on a sequence of length \<open>n\<close> first adjusts each bound (a negative
  bound counts from the end and is clipped at 0, a bound beyond \<open>n\<close> is clipped at
  \<open>n\<close>) and then takes the elements from the adjusted \<open>i\<close> up to the adjusted \<open>j\<close>;
  it never raises.
\<close>

definition slice_bound :: "int \<Rightarrow> int \<Rightarrow> nat" where
  "slice_bound n i =
     (if i < 0 then (if i + n < 0 then 0 else nat (i + n))
      else if n < i then nat n else nat i)"

definition py_slice :: "'a list \<Rightarrow> int \<Rightarrow> int \<Rightarrow> 'a list" where
  "py_slice xs i j =
     (let n = int (length xs); a = slice_bound n i; b = slice_bound n j
      in take (b - a) (drop a xs))"

text \<open>
  The body of the \<open>while start < len(text)\<close> loop of \<open>chunk_text\<close>; \<open>chunks\<close> is
  the list built so far.
\<close>

function chunk_loop :: "'a list \<Rightarrow> int \<Rightarrow> int \<Rightarrow> int \<Rightarrow> 'a list list \<Rightarrow> 'a list list" where
  "chunk_loop text chunk_size overlap start chunks =
     (if start < int (length text)
      then chunk_loop text chunk_size overlap
             (start + max (chunk_size - overlap) 1)
             (chunks @ [py_slice text start (start + chunk_size)])
      else chunks)"
  by pat_completeness auto
termination
  by (relation "measure (\<lambda>(text, chunk_size, overlap, start, chunks). nat (int (length text) - start))")
     auto

declare chunk_loop.simps [simp del]

definition chunk_text :: "'a list \<Rightarrow> int \<Rightarrow> int \<Rightarrow> 'a list list" where
  "chunk_text text chunk_size overlap =
     (if text = [] then [] else chunk_loop text chunk_size overlap 0 [])"

text \<open>
  The sliding window as the specification words it: the window advances by
  \<open>max(chunk_size - overlap, 1)\<close> from offset 0, so the offsets visited are the
  multiples of that advance below \<open>len(text)\<close>, in increasing order, and the chunk
  at offset \<open>s\<close> is \<open>text[s:s+chunk_size]\<close>.
\<close>

definition window_advance :: "int \<Rightarrow> int \<Rightarrow> int" where
  "window_advance chunk_size overlap = max (chunk_size - overlap) 1"

definition window_offsets :: "'a list \<Rightarrow> int \<Rightarrow> int \<Rightarrow> int list" where
  "window_offsets text chunk_size overlap =
     filter (\<lambda>s. s mod window_advance chunk_size overlap = 0) [0 .. int (length text) - 1]"

definition sliding_window :: "'a list \<Rightarrow> int \<Rightarrow> int \<Rightarrow> 'a list list" where
  "sliding_window text chunk_size overlap =
     map (\<lambda>s. py_slice text s (s + chunk_size)) (window_offsets text chunk_size overlap)"

section \<open>The candidate list of the model client\<close>

text \<open>
  \<open>FALLBACK_MODELS\<close> and the first statements of \<open>query_ollama\<close>: a missing
  \<open>fallback_models\<close> argument (\<open>None\<close>) stands for the default list.
\<close>

definition DEFAULT_MODEL :: string where
  "DEFAULT_MODEL = ''llama3.2:1b''"

definition FALLBACK_MODELS :: "string list" where
  "FALLBACK_MODELS = [''llama3.2:1b'', ''llama3.2'', ''llama3:1b'', ''tinyllama'', ''phi'']"

definition models_to_try :: "string \<Rightarrow> string list option \<Rightarrow> string list" where
  "models_to_try model fallback_models =
     (let fallback = (case fallback_models of None \<Rightarrow> FALLBACK_MODELS | Some fs \<Rightarrow> fs)
      in [model] @ filter (\<lambda>m. m \<noteq> model) fallback)"

section \<open>Strings\<close>

text \<open>
  A \<open>string\<close> is a list of 8-bit characters. The messages of the program are ASCII
  apart from one warning sign, which is written as its UTF-8 bytes.

  \<open>lower\<close> lowers the ASCII letters, which is all that the two substring tests of the
  program can observe: their patterns are ASCII, and no character outside ASCII is
  lowered by Python to one of the letters of a pattern. \<open>py_in sub s\<close> is Python's
  \<open>sub in s\<close> on strings, \<open>join\<close> is \<open>sep.join(xs)\<close>, and \<open>str_nat\<close>, \<open>str_int\<close> are
  \<open>str\<close> on integers (decimal digits, a leading minus sign).
\<close>

definition lower_char :: "char \<Rightarrow> char" where
  "lower_char c =
     (case map_of (zip ''ABCDEFGHIJKLMNOPQRSTUVWXYZ'' ''abcdefghijklmnopqrstuvwxyz'') c of
        Some d \<Rightarrow> d
      | None \<Rightarrow> c)"

definition lower :: "string \<Rightarrow> string" where
  "lower s = map lower_char s"

primrec py_in :: "'a list \<Rightarrow> 'a list \<Rightarrow> bool" where
  "py_in sub [] = (sub = [])"
| "py_in sub (c # cs) = (prefix sub (c # cs) \<or> py_in sub cs)"

fun join :: "string \<Rightarrow> string list \<Rightarrow> string" where
  "join sep [] = []"
| "join sep [x] = x"
| "join sep (x # y # ys) = x @ sep @ join sep (y # ys)"

definition digit_char :: "nat \<Rightarrow> char" where
  "digit_char n = ''0123456789'' ! n"

function str_nat :: "nat \<Rightarrow> string" where
  "str_nat n = (if n < 10 then [digit_char n] else str_nat (n div 10) @ [digit_char (n mod 10)])"
  by pat_completeness auto
termination
  by (relation "measure (\<lambda>n. n)") auto

declare str_nat.simps [simp del]

definition str_int :: "int \<Rightarrow> string" where
  "str_int i = (if i < 0 then CHR ''-'' # str_nat (nat (- i)) else str_nat (nat i))"

section \<open>The model-invocation client\<close>

text \<open>
  The model server is outside the program. One call of \<open>requests.post\<close> either
  raises or returns a response, and the \<open>except\<close> clauses of \<open>query_ollama\<close>
  tell three kinds of exception apart, in this order: a \<open>ConnectionError\<close>, a
  \<open>Timeout\<close>, and any other exception (here with its \<open>str\<close>). An exception that
  the first clause catches is a \<open>ConnectionError\<close> here, also when it is a time-out
  of the connection attempt; \<open>Timeout\<close> stands for the time-outs that reach the
  second clause.

  A response has a status code, its text, and what \<open>response.json()\<close> gives: the
  call raises (\<open>Inl\<close>, with the text of the exception) or returns the decoded
  payload. The source types the payload as \<open>Dict[str, Any]\<close>, and reads a value only
  through \<open>str\<close> or an f-string, so a payload is a map from keys to the text of
  their values, together with the text that an f-string prints for the whole
  dictionary.
\<close>

record request =
  model :: string
  prompt :: string
  stream :: bool

record payload =
  items :: "string \<rightharpoonup> string"
  repr :: string

record response =
  status_code :: int
  json :: "string + payload"
  resp_text :: string

datatype outcome =
    ConnectionError
  | Timeout
  | Failure string
  | Response response

text \<open>
  The answer to \<open>requests.get(OLLAMA_TAGS_URL)\<close>: the call raises, or returns a
  status code and a body whose decoding raises or gives a dictionary; of that
  dictionary only the value at \<open>"models"\<close> is read (\<open>None\<close> when the key is
  missing), a list of dictionaries with text values.
\<close>

datatype tags_outcome =
    TagsFailure
  | TagsResponse int "string + (string \<rightharpoonup> string) list option"

text \<open>
  The server as the client sees it: the outcome of the \<open>n\<close>-th generation request
  of a run (counting from 0) as a function of \<open>n\<close> and of the request, and the
  outcome of the model listing. Every call made is logged, in order.
\<close>

record ollama =
  post_generate :: "nat \<Rightarrow> request \<Rightarrow> outcome"
  get_tags :: tags_outcome

datatype call = Post request | GetTags

datatype exn = Exception string

fun str_exn :: "exn \<Rightarrow> string" where
  "str_exn (Exception msg) = msg"

definition get_available_models :: "tags_outcome \<Rightarrow> string list" where
  "get_available_models r =
     (case r of
        TagsFailure \<Rightarrow> []
      | TagsResponse code body \<Rightarrow>
          if code \<noteq> 200 then []
          else (case body of
                  Inl exc \<Rightarrow> []
                | Inr None \<Rightarrow> []
                | Inr (Some models) \<Rightarrow>
                    map (\<lambda>m. case m ''name'' of None \<Rightarrow> [] | Some n \<Rightarrow> n) models))"

definition is_memory_error :: "string \<Rightarrow> bool" where
  "is_memory_error error_msg \<longleftrightarrow>
     py_in ''unable to allocate'' (lower error_msg) \<or> py_in ''buffer'' (lower error_msg)"

definition cannot_connect_msg :: string where
  "cannot_connect_msg =
     ''Cannot connect to Ollama. Is Ollama running? Start it with: ollama serve''"

definition timed_out_msg :: string where
  "timed_out_msg =
     ''Ollama request timed out. The model might be too slow or not responding.''"

text \<open>
  One iteration of the \<open>for attempt_model in models_to_try\<close> loop ends in a
  \<open>return\<close>, a \<open>raise\<close> that leaves the function, or a \<open>continue\<close> with the new
  value of \<open>last_error\<close>. \<open>last_model\<close> is \<open>models_to_try[-1]\<close>, with which the
  handlers compare \<open>attempt_model\<close>.

  \<open>on_exception\<close> is the last handler, \<open>except Exception as exc\<close>; the two
  \<open>raise Exception(...)\<close> inside the \<open>try\<close> block end there as well.
\<close>

datatype step = Return string | Raise exn | Continue "string option"

definition on_exception :: "string \<Rightarrow> string \<Rightarrow> string \<Rightarrow> step" where
  "on_exception attempt_model last_model exc =
     (if attempt_model = last_model then Raise (Exception (''Ollama error: '' @ exc))
      else Continue (Some exc))"

text \<open>
  The non-200 branch first builds \<open>error_msg\<close> from the status code and the body,
  and may set \<open>last_error\<close>: to the \<open>"error"\<close> value when the body decodes and has
  one, to the whole of \<open>error_msg\<close> when decoding raises, and not at all when the
  body decodes without an \<open>"error"\<close> key.
\<close>

definition status_msg :: "int \<Rightarrow> string" where
  "status_msg code = ''Ollama returned status '' @ str_int code"

definition error_report :: "response \<Rightarrow> string option \<Rightarrow> string \<times> string option" where
  "error_report r last_error =
     (case json r of
        Inr error_data \<Rightarrow>
          (case items error_data ''error'' of
             Some e \<Rightarrow> (status_msg (status_code r) @ '': '' @ e, Some e)
           | None \<Rightarrow> (status_msg (status_code r), last_error))
      | Inl exc \<Rightarrow>
          (status_msg (status_code r) @ '': '' @ take 200 (resp_text r),
           Some (status_msg (status_code r) @ '': '' @ take 200 (resp_text r))))"

definition attempt :: "string \<Rightarrow> string \<Rightarrow> string option \<Rightarrow> outcome \<Rightarrow> step" where
  "attempt attempt_model last_model last_error out =
     (case out of
        ConnectionError \<Rightarrow> Raise (Exception cannot_connect_msg)
      | Timeout \<Rightarrow>
          if attempt_model \<noteq> last_model then Continue last_error
          else Raise (Exception timed_out_msg)
      | Failure exc \<Rightarrow> on_exception attempt_model last_model exc
      | Response r \<Rightarrow>
          if status_code r = 200 then
            (case json r of
               Inl exc \<Rightarrow> on_exception attempt_model last_model exc
             | Inr data \<Rightarrow>
                 (case items data ''response'' of
                    Some v \<Rightarrow> Return v
                  | None \<Rightarrow>
                      on_exception attempt_model last_model
                        (''Unexpected Ollama response format: '' @ repr data)))
          else
            (case error_report r last_error of
               (error_msg, last_error') \<Rightarrow>
                 if is_memory_error error_msg then Continue last_error'
                 else on_exception attempt_model last_model error_msg))"

text \<open>
  Whether an outcome makes the loop go on to the next candidate. The choice between
  \<open>continue\<close> and the other two exits never depends on \<open>last_error\<close>.
\<close>

definition advances :: "string \<Rightarrow> string \<Rightarrow> outcome \<Rightarrow> bool" where
  "advances attempt_model last_model out =
     (case attempt attempt_model last_model None out of
        Continue e \<Rightarrow> True
      | Return v \<Rightarrow> False
      | Raise e \<Rightarrow> False)"

datatype loop_result = Returned string | Raised exn | Exhausted "string option"

text \<open>
  The loop over the candidates still to try; \<open>n\<close> is the number of generation
  requests made so far.
\<close>

definition generate_request :: "string \<Rightarrow> string \<Rightarrow> request" where
  "generate_request attempt_model p = \<lparr>model = attempt_model, prompt = p, stream = False\<rparr>"

fun try_models ::
  "ollama \<Rightarrow> string \<Rightarrow> string \<Rightarrow> nat \<Rightarrow> string option \<Rightarrow> string list
   \<Rightarrow> loop_result \<times> call list" where
  "try_models srv p last_model n last_error [] = (Exhausted last_error, [])"
| "try_models srv p last_model n last_error (attempt_model # rest) =
     (let req = generate_request attempt_model p
      in case attempt attempt_model last_model last_error (post_generate srv n req) of
           Return answer \<Rightarrow> (Returned answer, [Post req])
         | Raise e \<Rightarrow> (Raised e, [Post req])
         | Continue last_error' \<Rightarrow>
             (let (r, calls) = try_models srv p last_model (Suc n) last_error' rest
              in (r, Post req # calls)))"

definition remediation :: "string list \<Rightarrow> string" where
  "remediation available =
     ''Try:\<newline>''
     @ ''1. Restart Ollama: Close and run 'ollama serve' again\<newline>''
     @ ''2. Free up RAM: Close other applications\<newline>''
     @ (if available \<noteq> []
        then ''3. Available models: '' @ join '', '' (take 5 available) @ ''\<newline>''
        else ''3. Install a smaller model: 'ollama pull tinyllama'\<newline>'')"

definition error_suggestion :: "string option \<Rightarrow> string list \<Rightarrow> string" where
  "error_suggestion last_error available =
     ''All models failed. Last error: ''
     @ (case last_error of None \<Rightarrow> ''None'' | Some e \<Rightarrow> e) @ ''\<newline>\<newline>''
     @ remediation available"

definition query_ollama ::
  "ollama \<Rightarrow> string \<Rightarrow> string \<Rightarrow> string list option \<Rightarrow> (exn + string) \<times> call list" where
  "query_ollama srv p model_name fallback_models =
     (let candidates = models_to_try model_name fallback_models;
          (r, calls) = try_models srv p (last candidates) 0 None candidates
      in case r of
           Returned answer \<Rightarrow> (Inr answer, calls)
         | Raised e \<Rightarrow> (Inl e, calls)
         | Exhausted last_error \<Rightarrow>
             (Inl (Exception (error_suggestion last_error
                     (get_available_models (get_tags srv)))),
              calls @ [GetTags]))"

section \<open>Simulated servers\<close>

text \<open>
  Three servers for concrete runs: one that answers every generation request with
  an out-of-memory error (status 500) and lists two installed models, one that
  does so for the first request and is unreachable afterwards, and one on which
  every request times out.
\<close>

definition memory_failure :: response where
  "memory_failure =
     \<lparr>status_code = 500,
      json = Inr \<lparr>items = [''error'' \<mapsto> ''unable to allocate CPU buffer''],
                  repr = ''{'error': 'unable to allocate CPU buffer'}''\<rparr>,
      resp_text = ''{'' @ [CHR 0x22] @ ''error'' @ [CHR 0x22] @ '':'' @ [CHR 0x22]
                  @ ''unable to allocate CPU buffer'' @ [CHR 0x22] @ ''}''\<rparr>"

definition out_of_memory_server :: ollama where
  "out_of_memory_server =
     \<lparr>post_generate = (\<lambda>n req. Response memory_failure),
      get_tags = TagsResponse 200 (Inr (Some [[''name'' \<mapsto> ''tinyllama''], [''name'' \<mapsto> ''phi'']]))\<rparr>"

definition unreachable_server :: ollama where
  "unreachable_server =
     \<lparr>post_generate = (\<lambda>n req. if n = 0 then Response memory_failure else ConnectionError),
      get_tags = TagsFailure\<rparr>"

definition timeout_server :: ollama where
  "timeout_server = \<lparr>post_generate = (\<lambda>n req. Timeout), get_tags = TagsFailure\<rparr>"

section \<open>The vector store\<close>

text \<open>
  The store holds entries with an id, a document (the chunk text) and its
  metadata. A metadata dictionary is read with \<open>meta.get("source", "Unknown")\<close> and
  \<open>meta.get("chunk", 0)\<close>, so each of its two keys may be missing.

  A query result is the dictionary that \<open>collection.query\<close> returns: the values at
  \<open>"documents"\<close> and \<open>"metadatas"\<close>, each missing or \<open>None\<close> (\<open>None\<close> here) or one
  list per query text.
\<close>

record metadata =
  source :: "string option"
  chunk :: "int option"

record entry =
  entry_id :: string
  document :: string
  entry_metadata :: metadata

record query_result =
  documents :: "string list list option"
  metadatas :: "metadata list list option"

text \<open>
  Modelled from the spec: the vector engine behind \<open>collection.add\<close>,
  \<open>collection.query\<close> and \<open>delete_collection\<close> is a library outside the source. From
  section 4.2 of the specification: a query is a nearest-neighbour search over all
  stored chunks, most relevant first, at most \<open>k\<close> of them, and the empty sequence
  when the store is empty; clearing deletes every chunk and leaves a usable store.
  The distance of a document from the question is a parameter. What the engine
  does with an id that is already stored is not fixed by the source, so it is a
  parameter as well: it rejects the whole batch, skips those entries, or replaces
  the stored ones. The engine does not look for duplicates inside a batch.
\<close>

datatype on_existing = Reject | Skip | Replace

definition collection_add :: "on_existing \<Rightarrow> entry list \<Rightarrow> entry list \<Rightarrow> string + entry list" where
  "collection_add policy store batch =
     (case policy of
        Reject \<Rightarrow>
          if \<exists>e \<in> set batch. entry_id e \<in> set (map entry_id store)
          then Inl ''ID already exists''
          else Inr (store @ batch)
      | Skip \<Rightarrow>
          Inr (store @ filter (\<lambda>e. entry_id e \<notin> set (map entry_id store)) batch)
      | Replace \<Rightarrow>
          Inr (filter (\<lambda>e. entry_id e \<notin> set (map entry_id batch)) store @ batch))"

definition collection_query ::
  "(string \<Rightarrow> string \<Rightarrow> nat) \<Rightarrow> entry list \<Rightarrow> string list \<Rightarrow> nat \<Rightarrow> query_result" where
  "collection_query distance store query_texts n_results =
     (let nearest = (\<lambda>q. take n_results (sort_key (\<lambda>e. distance q (document e)) store))
      in \<lparr>documents = Some (map (\<lambda>q. map document (nearest q)) query_texts),
          metadatas = Some (map (\<lambda>q. map entry_metadata (nearest q)) query_texts)\<rparr>)"

definition delete_and_recreate :: "entry list \<Rightarrow> entry list" where
  "delete_and_recreate store = []"

section \<open>Ingestion\<close>

text \<open>
  \<open>upload_document\<close> after the PDF has been read: its inputs are the file name and
  what \<open>extract_text_from_pdf\<close> gives, the text or an exception (\<open>Inl\<close>). The result
  is the reply or the \<open>HTTPException\<close> raised, with the store as it is afterwards.
  The \<open>"chunks"\<close> count of the reply is the field \<open>n_chunks\<close>.
  \<open>isspace\<close> is \<open>str.isspace\<close> on 8-bit characters, so that \<open>text.strip()\<close> is empty
  exactly when every character of the text is a space.
\<close>

datatype http_error = HTTPException int string

record upload_reply =
  message :: string
  filename :: string
  n_chunks :: nat

definition isspace :: "char \<Rightarrow> bool" where
  "isspace c \<longleftrightarrow> (of_char c :: nat) \<in> {9, 10, 11, 12, 13, 28, 29, 30, 31, 32, 133, 160}"

definition chunk_id :: "string \<Rightarrow> nat \<Rightarrow> string" where
  "chunk_id file_name i = file_name @ ''_'' @ str_nat i"

definition chunk_entry :: "string \<Rightarrow> nat \<Rightarrow> string \<Rightarrow> entry" where
  "chunk_entry file_name i chunk_doc =
     \<lparr>entry_id = chunk_id file_name i,
      document = chunk_doc,
      entry_metadata = \<lparr>source = Some file_name, chunk = Some (int i)\<rparr>\<rparr>"

definition build_entries :: "string \<Rightarrow> string list \<Rightarrow> entry list" where
  "build_entries file_name cs =
     map (\<lambda>i. chunk_entry file_name i (cs ! i)) [0 ..< length cs]"

text \<open>
  The shape of an entry that the ingestion builds: its id is a file name, an
  underscore and an index, and its metadata names that file and that index.
\<close>

definition well_formed :: "entry \<Rightarrow> bool" where
  "well_formed e \<longleftrightarrow>
     (\<exists>f i. entry_id e = f @ ''_'' @ str_nat i
          \<and> entry_metadata e = \<lparr>source = Some f, chunk = Some (int i)\<rparr>)"

definition upload_document ::
  "on_existing \<Rightarrow> entry list \<Rightarrow> string \<Rightarrow> string + string
   \<Rightarrow> (http_error + upload_reply) \<times> entry list" where
  "upload_document policy store file_name extracted =
     (case extracted of
        Inl exc \<Rightarrow> (Inl (HTTPException 500 exc), store)
      | Inr doc \<Rightarrow>
          if \<forall>c \<in> set doc. isspace c
          then (Inl (HTTPException 400 ''No text found in PDF''), store)
          else
            (let cs = chunk_text doc 1000 200
             in if cs = []
                then (Inl (HTTPException 400 ''Failed to generate chunks from PDF text''), store)
                else (case collection_add policy store (build_entries file_name cs) of
                        Inl exc \<Rightarrow> (Inl (HTTPException 500 exc), store)
                      | Inr store' \<Rightarrow>
                          (Inr \<lparr>message = ''Document uploaded successfully'',
                                filename = file_name,
                                n_chunks = length cs\<rparr>,
                           store'))))"

text \<open>
  A run of the service on the store: uploads and clears, in any order, from the
  empty store that the program creates when it starts.
\<close>

datatype operation = Upload string "string + string" | Clear

fun apply_operation :: "on_existing \<Rightarrow> entry list \<Rightarrow> operation \<Rightarrow> entry list" where
  "apply_operation policy store (Upload file_name extracted) =
     snd (upload_document policy store file_name extracted)"
| "apply_operation policy store Clear = delete_and_recreate store"

definition run_operations :: "on_existing \<Rightarrow> operation list \<Rightarrow> entry list" where
  "run_operations policy ops = foldl (apply_operation policy) [] ops"

section \<open>Question answering\<close>

text \<open>
  \<open>ask_question\<close>. The collection is given by its \<open>query\<close> method, which returns a
  result or raises (\<open>Inl\<close>, with the text of the exception and the traceback that
  the handler appends). The result is the reply or the \<open>HTTPException\<close> raised,
  with the calls made to the model server.
\<close>

record cited_source =
  cited_source :: string
  cited_chunk :: int

record reply =
  answer :: string
  sources :: "cited_source list"

definition no_documents_answer :: string where
  "no_documents_answer = ''No documents found. Please upload documents first.''"

definition build_prompt :: "string \<Rightarrow> string \<Rightarrow> string" where
  "build_prompt context_block question =
     ''You are a helpful study assistant. Answer the question based on the provided context. \<newline>''
     @ ''If the answer is not in the context, say so clearly.\<newline>\<newline>''
     @ ''Context:\<newline>'' @ context_block @ ''\<newline>\<newline>''
     @ ''Question: '' @ question @ ''\<newline>\<newline>''
     @ ''Answer:''"

definition warning_sign :: string where
  "warning_sign = [CHR 0xE2, CHR 0x9A, CHR 0xA0, CHR 0xEF, CHR 0xB8, CHR 0x8F]"

definition memory_checklist :: string where
  "memory_checklist =
     ''Quick fixes:\<newline>''
     @ ''1. Restart Ollama: Close terminal running 'ollama serve', then run it again\<newline>''
     @ ''2. Free up RAM: Close other applications\<newline>''
     @ ''3. Try a smaller model: Run 'ollama pull tinyllama' then restart\<newline>''
     @ ''4. Check available models: Visit http://localhost:8000/models''"

definition generic_checklist :: string where
  "generic_checklist =
     ''Please check:\<newline>''
     @ ''1. Is Ollama running? (Run 'ollama serve' in terminal)\<newline>''
     @ ''2. Is a model installed? (Run 'ollama pull llama3.2:1b' or 'ollama pull tinyllama')''"

definition error_answer :: "string \<Rightarrow> string" where
  "error_answer error_msg =
     (if is_memory_error error_msg
      then warning_sign @ '' Memory Error: '' @ error_msg @ ''\<newline>\<newline>'' @ memory_checklist
      else warning_sign @ '' Error: '' @ error_msg @ ''\<newline>\<newline>'' @ generic_checklist)"

definition cite :: "metadata \<Rightarrow> cited_source" where
  "cite meta =
     \<lparr>cited_source = (case source meta of None \<Rightarrow> ''Unknown'' | Some s \<Rightarrow> s),
      cited_chunk = (case chunk meta of None \<Rightarrow> 0 | Some i \<Rightarrow> i)\<rparr>"

definition ask_question ::
  "ollama \<Rightarrow> (string list \<Rightarrow> nat \<Rightarrow> string \<times> string + query_result) \<Rightarrow> string
   \<Rightarrow> (http_error + reply) \<times> call list" where
  "ask_question srv query question =
     (case query [question] 3 of
        Inl (exc, traceback) \<Rightarrow>
          (Inl (HTTPException 500 (exc @ ''\<newline>\<newline>Traceback:\<newline>'' @ traceback)), [])
      | Inr results \<Rightarrow>
          (case (case documents results of None \<Rightarrow> [] | Some ds \<Rightarrow> ds) of
             [] \<Rightarrow> (Inr \<lparr>answer = no_documents_answer, sources = []\<rparr>, [])
           | first_docs # other_docs \<Rightarrow>
               if first_docs = []
               then (Inr \<lparr>answer = no_documents_answer, sources = []\<rparr>, [])
               else
                 (case query_ollama srv
                         (build_prompt (join ''\<newline>\<newline>'' first_docs) question)
                         DEFAULT_MODEL None of
                    (Inl ollama_error, calls) \<Rightarrow>
                      (Inr \<lparr>answer = error_answer (str_exn ollama_error), sources = []\<rparr>, calls)
                  | (Inr model_answer, calls) \<Rightarrow>
                      (Inr \<lparr>answer = model_answer,
                            sources =
                              (case (case metadatas results of None \<Rightarrow> [] | Some ms \<Rightarrow> ms) of
                                 [] \<Rightarrow> []
                               | first_metas # other_metas \<Rightarrow>
                                   if first_metas \<noteq> [] then map cite first_metas else [])\<rparr>,
                       calls))))"

section \<open>Simulated retrieval\<close>

text \<open>
  A server that answers every generation request, and a collection whose query
  returns one document and no metadata at all, for concrete runs of
  \<open>ask_question\<close>.
\<close>

definition answering_server :: ollama where
  "answering_server =
     \<lparr>post_generate =
        (\<lambda>n req. Response \<lparr>status_code = 200,
                             json = Inr \<lparr>items = [''response'' \<mapsto> ''Paris.''],
                                         repr = ''{'response': 'Paris.'}''\<rparr>,
                             resp_text = ''Paris.''\<rparr>),
      get_tags = TagsFailure\<rparr>"

definition one_document_query :: "string list \<Rightarrow> nat \<Rightarrow> string \<times> string + query_result" where
  "one_document_query query_texts n_results =
     Inr \<lparr>documents = Some [[''Paris is the capital of France.'']], metadatas = None\<rparr>"

section \<open>Properties of the chunker\<close>

lemma window_advance_pos: "1 \<le> window_advance chunk_size overlap"
  by (simp add: window_advance_def)

lemma offsets_from_step:
  fixes s d L :: int
  assumes d: "1 \<le> d" and s: "s < L"
  shows "filter (\<lambda>t. (t - s) mod d = 0) [s .. L - 1]
         = s # filter (\<lambda>t. (t - (s + d)) mod d = 0) [s + d .. L - 1]"
proof -
  have head: "[s .. L - 1] = s # [s + 1 .. L - 1]"
    using s by (simp add: upto_rec1)
  have none: "filter (\<lambda>t. (t - s) mod d = 0) [s + 1 .. min (s + d - 1) (L - 1)] = []"
  proof -
    have "\<And>t. s + 1 \<le> t \<Longrightarrow> t \<le> s + d - 1 \<Longrightarrow> (t - s) mod d \<noteq> 0"
    proof -
      fix t :: int
      assume "s + 1 \<le> t" "t \<le> s + d - 1"
      then have "0 < t - s" "t - s < d" by auto
      then have "(t - s) mod d = t - s" by simp
      with \<open>0 < t - s\<close> show "(t - s) mod d \<noteq> 0" by simp
    qed
    then show ?thesis by (auto simp: filter_empty_conv)
  qed
  have shift: "\<And>t. ((t - (s + d)) mod d = 0) = ((t - s) mod d = 0)"
  proof -
    fix t :: int
    have "t - s = t - (s + d) + d" by simp
    then have "(t - s) mod d = (t - (s + d) + d) mod d" by simp
    also have "\<dots> = (t - (s + d)) mod d" by (rule mod_add_self2)
    finally show "((t - (s + d)) mod d = 0) = ((t - s) mod d = 0)" by simp
  qed
  have rest: "filter (\<lambda>t. (t - s) mod d = 0) [s + 1 .. L - 1]
              = filter (\<lambda>t. (t - s) mod d = 0) [s + d .. L - 1]"
  proof (cases "s + d \<le> L - 1")
    case True
    have "[s + 1 .. L - 1] = [s + 1 .. s + d - 1] @ [s + d .. L - 1]"
    proof (cases "d = 1")
      case True
      then show ?thesis by simp
    next
      case False
      with d have "s + 1 \<le> s + d - 1" by simp
      from upto_split2 [OF this, of "L - 1"] \<open>s + d \<le> L - 1\<close> show ?thesis by simp
    qed
    moreover from True have "min (s + d - 1) (L - 1) = s + d - 1" by simp
    ultimately show ?thesis using none by simp
  next
    case False
    then have "min (s + d - 1) (L - 1) = L - 1" by simp
    with none False show ?thesis by simp
  qed
  show ?thesis
    by (simp add: head rest shift)
qed

lemma chunk_loop_offsets:
  "0 \<le> start \<Longrightarrow>
   chunk_loop doc chunk_size overlap start chunks
   = chunks @ map (\<lambda>s. py_slice doc s (s + chunk_size))
       (filter (\<lambda>t. (t - start) mod window_advance chunk_size overlap = 0)
          [start .. int (length doc) - 1])"
proof (induction doc chunk_size overlap start chunks rule: chunk_loop.induct)
  case (1 doc chunk_size overlap start chunks)
  let ?d = "window_advance chunk_size overlap"
  show ?case
  proof (cases "start < int (length doc)")
    case True
    have d: "1 \<le> ?d" by (rule window_advance_pos)
    have step: "chunk_loop doc chunk_size overlap start chunks
                = chunk_loop doc chunk_size overlap (start + ?d)
                    (chunks @ [py_slice doc start (start + chunk_size)])"
      using True by (subst chunk_loop.simps) (simp add: window_advance_def)
    have ih: "chunk_loop doc chunk_size overlap (start + ?d)
                (chunks @ [py_slice doc start (start + chunk_size)])
              = (chunks @ [py_slice doc start (start + chunk_size)])
                @ map (\<lambda>s. py_slice doc s (s + chunk_size))
                    (filter (\<lambda>t. (t - (start + ?d)) mod ?d = 0)
                       [start + ?d .. int (length doc) - 1])"
      using "1.IH" [OF True] "1.prems" d by (simp add: window_advance_def)
    show ?thesis
      unfolding step ih offsets_from_step [OF d True] by simp
  next
    case False
    then have "[start .. int (length doc) - 1] = []" by simp
    moreover have "chunk_loop doc chunk_size overlap start chunks = chunks"
      using False by (subst chunk_loop.simps) simp
    ultimately show ?thesis by simp
  qed
qed

lemma py_slice_window:
  "0 \<le> s \<Longrightarrow> 0 \<le> c \<Longrightarrow> py_slice xs s (s + c) = take (nat c) (drop (nat s) xs)"
  by (auto simp: py_slice_def slice_bound_def Let_def min_def nat_add_distrib)

lemma chunk_loop_unfold:
  "start < int (length doc) \<Longrightarrow>
   chunk_loop doc chunk_size overlap start chunks
   = chunk_loop doc chunk_size overlap (start + window_advance chunk_size overlap)
       (chunks @ [py_slice doc start (start + chunk_size)])"
  by (subst chunk_loop.simps) (simp add: window_advance_def)

lemma chunk_loop_done:
  "\<not> start < int (length doc) \<Longrightarrow> chunk_loop doc chunk_size overlap start chunks = chunks"
  by (subst chunk_loop.simps) simp

lemma chunk_loop_length:
  "int (length (chunk_loop doc chunk_size overlap start chunks))
   = int (length chunks)
     + max 0 ((int (length doc) - start + window_advance chunk_size overlap - 1)
          div window_advance chunk_size overlap)"
proof (induction doc chunk_size overlap start chunks rule: chunk_loop.induct)
  case (1 doc chunk_size overlap start chunks)
  let ?d = "window_advance chunk_size overlap"
  have d: "1 \<le> ?d" by (rule window_advance_pos)
  show ?case
  proof (cases "start < int (length doc)")
    case True
    have "(int (length doc) - start + ?d - 1) div ?d
          = (int (length doc) - (start + ?d) + ?d - 1) div ?d + 1"
      using d div_add_self2 [of ?d "int (length doc) - (start + ?d) + ?d - 1"]
      by (simp add: algebra_simps)
    moreover have "0 \<le> (int (length doc) - (start + ?d) + ?d - 1) div ?d"
      using True d by (simp add: pos_imp_zdiv_nonneg_iff)
    ultimately show ?thesis
      using "1.IH" [OF True] True
      by (simp add: chunk_loop_unfold window_advance_def)
  next
    case False
    then have "int (length doc) - start + ?d - 1 < ?d" by simp
    then have "(int (length doc) - start + ?d - 1) div ?d \<le> (?d - 1) div ?d"
      using d by (intro zdiv_mono1) auto
    moreover have "(?d - 1) div ?d = 0"
      using d by simp
    ultimately have "(int (length doc) - start + ?d - 1) div ?d \<le> 0"
      by simp
    with False show ?thesis by (simp add: chunk_loop_done)
  qed
qed

lemma chunk_loop_concat:
  assumes "0 \<le> start" and "window_advance chunk_size overlap \<le> chunk_size"
  shows "concat (map (take (nat (window_advance chunk_size overlap)))
           (chunk_loop doc chunk_size overlap start chunks))
         = concat (map (take (nat (window_advance chunk_size overlap))) chunks)
           @ drop (nat start) doc"
  using assms
proof (induction doc chunk_size overlap start chunks rule: chunk_loop.induct)
  case (1 doc chunk_size overlap start chunks)
  let ?d = "window_advance chunk_size overlap"
  have d: "1 \<le> ?d" by (rule window_advance_pos)
  show ?case
  proof (cases "start < int (length doc)")
    case True
    have sl: "take (nat ?d) (py_slice doc start (start + chunk_size))
              = take (nat ?d) (drop (nat start) doc)"
      using "1.prems" d by (simp add: py_slice_window min_def)
    have dr: "drop (nat (start + ?d)) doc = drop (nat ?d) (drop (nat start) doc)"
      using "1.prems" d by (simp add: nat_add_distrib add.commute)
    have "concat (map (take (nat ?d)) (chunk_loop doc chunk_size overlap (start + ?d)
             (chunks @ [py_slice doc start (start + chunk_size)])))
          = concat (map (take (nat ?d)) (chunks @ [py_slice doc start (start + chunk_size)]))
            @ drop (nat (start + ?d)) doc"
      using "1.IH" [OF True] "1.prems" d by (simp add: window_advance_def)
    then show ?thesis
      by (simp add: chunk_loop_unfold [OF True] sl dr del: drop_drop)
  next
    case False
    then show ?thesis using "1.prems" by (simp add: chunk_loop_done)
  qed
qed


lemma chunk_loop_concat_drop:
  assumes "0 \<le> start" and "0 \<le> overlap" and "overlap < chunk_size"
  shows "concat (map (drop (nat overlap)) (chunk_loop doc chunk_size overlap start chunks))
         = concat (map (drop (nat overlap)) chunks) @ drop (nat (start + overlap)) doc"
  using assms
proof (induction doc chunk_size overlap start chunks rule: chunk_loop.induct)
  case (1 doc chunk_size overlap start chunks)
  let ?d = "window_advance chunk_size overlap"
  have d: "?d = chunk_size - overlap" "1 \<le> ?d"
    using "1.prems" by (simp_all add: window_advance_def)
  show ?case
  proof (cases "start < int (length doc)")
    case True
    have "drop (nat overlap) (py_slice doc start (start + chunk_size))
          = take (nat chunk_size - nat overlap) (drop (nat overlap) (drop (nat start) doc))"
      using "1.prems" by (simp add: py_slice_window drop_take del: drop_drop)
    also have "nat chunk_size - nat overlap = nat ?d"
      using "1.prems" d by (simp add: nat_diff_distrib)
    also have "drop (nat overlap) (drop (nat start) doc) = drop (nat (start + overlap)) doc"
      using "1.prems" by (simp add: nat_add_distrib add.commute)
    finally have sl: "drop (nat overlap) (py_slice doc start (start + chunk_size))
                      = take (nat ?d) (drop (nat (start + overlap)) doc)" .
    have dr: "drop (nat (start + ?d + overlap)) doc
              = drop (nat ?d) (drop (nat (start + overlap)) doc)"
      using "1.prems" d by (simp add: nat_add_distrib algebra_simps)
    have "concat (map (drop (nat overlap)) (chunk_loop doc chunk_size overlap (start + ?d)
             (chunks @ [py_slice doc start (start + chunk_size)])))
          = concat (map (drop (nat overlap)) (chunks @ [py_slice doc start (start + chunk_size)]))
            @ drop (nat (start + ?d + overlap)) doc"
      using "1.IH" [OF True] "1.prems" d by (simp add: window_advance_def)
    then show ?thesis
      by (simp add: chunk_loop_unfold [OF True] sl dr del: drop_drop)
  next
    case False
    then show ?thesis using "1.prems" by (simp add: chunk_loop_done)
  qed
qed

lemma chunk_text_window:
  "chunk_text doc chunk_size overlap = sliding_window doc chunk_size overlap"
proof (cases "doc = []")
  case True
  then show ?thesis
    by (simp add: chunk_text_def sliding_window_def window_offsets_def)
next
  case False
  then show ?thesis
    using chunk_loop_offsets [of 0 doc chunk_size overlap "[]"]
    by (simp add: chunk_text_def sliding_window_def window_offsets_def)
qed

lemma sorted_le_last: "sorted (xs :: int list) \<Longrightarrow> x \<in> set xs \<Longrightarrow> x \<le> last xs"
  by (induction xs) (auto split: if_splits)

lemma window_offsets_first:
  assumes "doc \<noteq> []"
  shows "\<exists>rest. window_offsets doc chunk_size overlap = 0 # rest"
proof -
  have "[0 .. int (length doc) - 1] = 0 # [1 .. int (length doc) - 1]"
    using assms upto_rec1 [of 0 "int (length doc) - 1"] by (cases doc) auto
  then show ?thesis
    by (simp add: window_offsets_def)
qed

lemma window_offsets_last:
  assumes "doc \<noteq> []"
  shows "int (length doc)
         \<le> last (window_offsets doc chunk_size overlap) + window_advance chunk_size overlap"
    and "0 \<le> last (window_offsets doc chunk_size overlap)"
proof -
  let ?d = "window_advance chunk_size overlap"
  let ?offs = "window_offsets doc chunk_size overlap"
  let ?l = "last ?offs"
  have d: "1 \<le> ?d" by (rule window_advance_pos)
  from window_offsets_first [OF assms, of chunk_size overlap] have ne: "?offs \<noteq> []" by auto
  then have mem: "?l \<in> set ?offs" by (rule last_in_set)
  then have l: "0 \<le> ?l" "?l mod ?d = 0"
    by (auto simp: window_offsets_def)
  have srt: "sorted ?offs"
    unfolding window_offsets_def by (rule sorted_wrt_filter) simp
  show "int (length doc) \<le> ?l + ?d"
  proof (rule ccontr)
    assume "\<not> int (length doc) \<le> ?l + ?d"
    then have "?l + ?d \<le> int (length doc) - 1" by simp
    moreover have "(?l + ?d) mod ?d = 0" using l by simp
    ultimately have "?l + ?d \<in> set ?offs"
      using l d by (simp add: window_offsets_def)
    from sorted_le_last [OF srt this] d show False by simp
  qed
  show "0 \<le> ?l" by (rule l)
qed

lemma chunk_text_count:
  "int (length (chunk_text doc chunk_size overlap))
   = (int (length doc) + window_advance chunk_size overlap - 1)
       div window_advance chunk_size overlap"
proof (cases "doc = []")
  case True
  have "(window_advance chunk_size overlap - 1) div window_advance chunk_size overlap = 0"
    using window_advance_pos [of chunk_size overlap] by simp
  with True show ?thesis by (simp add: chunk_text_def)
next
  case False
  have "0 \<le> (int (length doc) + window_advance chunk_size overlap - 1)
          div window_advance chunk_size overlap"
    using window_advance_pos [of chunk_size overlap] by (simp add: pos_imp_zdiv_nonneg_iff)
  with False show ?thesis
    using chunk_loop_length [of doc chunk_size overlap 0 "[]"]
    by (simp add: chunk_text_def)
qed

text \<open>
  C1. For every text and every \<open>chunk_size\<close> and \<open>overlap\<close> (negative ones included,
  with Python's slicing), \<open>chunk_text\<close> returns exactly the chunks of the sliding
  window of the specification: the slices \<open>text[s:s+chunk_size]\<close> at the offsets
  0, d, 2d, ... below \<open>len(text)\<close>, where the advance \<open>d = max(chunk_size - overlap, 1)\<close>
  is at least 1 (so the loop terminates, \<open>chunk_text\<close> being a total function);
  the empty text yields no chunk; and a chunk is the plain slice, a contiguous
  part of the text cut at its end and never padded.
\<close>

theorem chunk_text_sliding_window:
  "chunk_text text chunk_size overlap = sliding_window text chunk_size overlap
   \<and> 1 \<le> window_advance chunk_size overlap
   \<and> chunk_text [] chunk_size overlap = []
   \<and> sublist (py_slice text start (start + chunk_size)) text
   \<and> length (py_slice text start (start + chunk_size)) \<le> length text"
proof (intro conjI)
  show "chunk_text text chunk_size overlap = sliding_window text chunk_size overlap"
    by (rule chunk_text_window)
  show "1 \<le> window_advance chunk_size overlap"
    by (rule window_advance_pos)
  show "chunk_text [] chunk_size overlap = []"
    by (simp add: chunk_text_def)
  show "sublist (py_slice text start (start + chunk_size)) text"
    unfolding py_slice_def Let_def
    by (rule sublist_order.order_trans [OF sublist_take sublist_drop])
  show "length (py_slice text start (start + chunk_size)) \<le> length text"
    by (simp add: py_slice_def Let_def)
qed

text \<open>
  C5 as stated fails: \<open>overlap < chunk_size\<close> admits a negative overlap, for which
  the window advances by more than \<open>chunk_size\<close> and skips characters. With
  \<open>chunk_size = 10\<close> and \<open>overlap = -5\<close> a text of 12 characters yields the single
  chunk \<open>text[0:10]\<close>: the characters at offsets 10 and 11 are in no chunk, and the
  last chunk's end offset 10 is below the length 12.
\<close>

theorem chunk_text_negative_overlap_counterexample:
  "(-5::int) < 10
   \<and> chunk_text ''abcdefghijkl'' 10 (-5) = [''abcdefghij'']
   \<and> CHR ''k'' \<notin> set (concat (chunk_text ''abcdefghijkl'' 10 (-5)))
   \<and> last (window_offsets ''abcdefghijkl'' 10 (-5)) + 10 < int (length ''abcdefghijkl'')"
  by (simp add: chunk_text_def chunk_loop.simps py_slice_def slice_bound_def
      window_offsets_def window_advance_def upto_rec1)

text \<open>
  C5, amended to \<open>0 \<le> overlap < chunk_size\<close>. With \<open>d = chunk_size - overlap\<close> and
  \<open>L = len(text)\<close>, \<open>chunk_text\<close> produces exactly \<open>\<lceil>L / d\<rceil>\<close> chunks, which is at least
  the \<open>\<lceil>(L - overlap) / d\<rceil>\<close> of the specification; the text is reconstructed exactly
  both by concatenating the first \<open>d\<close> characters of every chunk, and by the first
  chunk followed by every later chunk without its first \<open>overlap\<close> characters; the
  first chunk is \<open>text[0:chunk_size]\<close>; the last chunk starts at the last offset
  \<open>s\<close>, where \<open>s + chunk_size \<ge> L\<close>, and runs to the end of the text; and a text
  of 2500 characters with \<open>chunk_size = 1000\<close> and \<open>overlap = 200\<close> gives exactly 4
  chunks.
\<close>

theorem chunk_text_reconstructs:
  assumes "0 \<le> overlap" and "overlap < chunk_size"
  shows "int (length (chunk_text doc chunk_size overlap))
           = (int (length doc) + (chunk_size - overlap) - 1) div (chunk_size - overlap)
       \<and> (int (length doc) - overlap + (chunk_size - overlap) - 1) div (chunk_size - overlap)
           \<le> int (length (chunk_text doc chunk_size overlap))
       \<and> concat (map (take (nat (chunk_size - overlap))) (chunk_text doc chunk_size overlap)) = doc
       \<and> (doc \<noteq> [] \<longrightarrow>
             hd (chunk_text doc chunk_size overlap) = take (nat chunk_size) doc
           \<and> int (length doc) \<le> last (window_offsets doc chunk_size overlap) + chunk_size
           \<and> last (chunk_text doc chunk_size overlap)
               = drop (nat (last (window_offsets doc chunk_size overlap))) doc
           \<and> hd (chunk_text doc chunk_size overlap)
               @ concat (map (drop (nat overlap)) (tl (chunk_text doc chunk_size overlap))) = doc)
       \<and> (length doc = 2500 \<and> chunk_size = 1000 \<and> overlap = 200 \<longrightarrow>
             length (chunk_text doc chunk_size overlap) = 4)"
proof -
  let ?d = "window_advance chunk_size overlap"
  let ?offs = "window_offsets doc chunk_size overlap"
  have d: "?d = chunk_size - overlap" "1 \<le> ?d" "?d \<le> chunk_size"
    using assms by (simp_all add: window_advance_def)
  have cnt: "int (length (chunk_text doc chunk_size overlap))
             = (int (length doc) + (chunk_size - overlap) - 1) div (chunk_size - overlap)"
    using chunk_text_count [of doc chunk_size overlap] d by simp
  have low: "(int (length doc) - overlap + (chunk_size - overlap) - 1) div (chunk_size - overlap)
             \<le> int (length (chunk_text doc chunk_size overlap))"
    unfolding cnt using assms by (intro zdiv_mono1) auto
  have cat: "concat (map (take (nat (chunk_size - overlap))) (chunk_text doc chunk_size overlap)) = doc"
  proof (cases "doc = []")
    case True
    then show ?thesis by (simp add: chunk_text_def)
  next
    case False
    then show ?thesis
      using chunk_loop_concat [of 0 chunk_size overlap doc "[]"] d
      by (simp add: chunk_text_def)
  qed
  have ends: "hd (chunk_text doc chunk_size overlap) = take (nat chunk_size) doc
           \<and> int (length doc) \<le> last ?offs + chunk_size
           \<and> last (chunk_text doc chunk_size overlap) = drop (nat (last ?offs)) doc
           \<and> hd (chunk_text doc chunk_size overlap)
               @ concat (map (drop (nat overlap)) (tl (chunk_text doc chunk_size overlap))) = doc"
    if ne: "doc \<noteq> []"
  proof -
    from window_offsets_first [OF ne, of chunk_size overlap] obtain rest where offs: "?offs = 0 # rest" by blast
    have cs: "0 \<le> chunk_size" using assms by simp
    have "hd (chunk_text doc chunk_size overlap) = py_slice doc 0 (0 + chunk_size)"
      by (simp add: chunk_text_window sliding_window_def offs)
    then have h: "hd (chunk_text doc chunk_size overlap) = take (nat chunk_size) doc"
      using py_slice_window [of 0 chunk_size doc] cs by simp
    from window_offsets_last [OF ne, of chunk_size overlap] d
    have le: "int (length doc) \<le> last ?offs + chunk_size" and l0: "0 \<le> last ?offs"
      by simp_all
    have "last (chunk_text doc chunk_size overlap)
          = py_slice doc (last ?offs) (last ?offs + chunk_size)"
      using offs by (simp add: chunk_text_window sliding_window_def last_map)
    also have "\<dots> = take (nat chunk_size) (drop (nat (last ?offs)) doc)"
      using l0 cs by (rule py_slice_window)
    also have "\<dots> = drop (nat (last ?offs)) doc"
      using le l0 cs by simp
    finally have lst: "last (chunk_text doc chunk_size overlap) = drop (nat (last ?offs)) doc" .
    have "chunk_text doc chunk_size overlap \<noteq> []"
      by (simp add: chunk_text_window sliding_window_def offs)
    then have split: "chunk_text doc chunk_size overlap
                      = hd (chunk_text doc chunk_size overlap) # tl (chunk_text doc chunk_size overlap)"
      by simp
    have "concat (map (drop (nat overlap)) (chunk_text doc chunk_size overlap)) = drop (nat overlap) doc"
      using chunk_loop_concat_drop [of 0 overlap chunk_size doc "[]"] assms ne
      by (simp add: chunk_text_def)
    then have "drop (nat overlap) (hd (chunk_text doc chunk_size overlap))
               @ concat (map (drop (nat overlap)) (tl (chunk_text doc chunk_size overlap)))
               = drop (nat overlap) doc"
      by (subst (asm) split) simp
    moreover have "take (nat overlap) (hd (chunk_text doc chunk_size overlap)) = take (nat overlap) doc"
      using assms by (simp add: h min_def)
    ultimately have "hd (chunk_text doc chunk_size overlap)
               @ concat (map (drop (nat overlap)) (tl (chunk_text doc chunk_size overlap))) = doc"
      by (metis append_take_drop_id append_assoc)
    with h le lst show ?thesis by simp
  qed
  have four: "length (chunk_text doc chunk_size overlap) = 4"
    if "length doc = 2500 \<and> chunk_size = 1000 \<and> overlap = 200"
    using cnt that by simp
  from cnt low cat ends four show ?thesis by blast
qed

text \<open>
  The amended C5 at a text of 2500 characters with the default parameters.
\<close>

theorem chunk_text_reconstructs_witness:
  "(0::int) \<le> 200 \<and> (200::int) < 1000
   \<and> replicate 2500 (CHR ''a'') \<noteq> []
   \<and> length (replicate 2500 (CHR ''a'')) = 2500
   \<and> length (chunk_text (replicate 2500 (CHR ''a'')) 1000 200) = 4
   \<and> concat (map (take 800) (chunk_text (replicate 2500 (CHR ''a'')) 1000 200))
       = replicate 2500 (CHR ''a'')
   \<and> hd (chunk_text (replicate 2500 (CHR ''a'')) 1000 200) = replicate 1000 (CHR ''a'')"
  using chunk_text_reconstructs [of 200 1000 "replicate 2500 (CHR ''a'')"]
  by simp

section \<open>Properties of the candidate list\<close>

text \<open>
  C4. For every requested model \<open>m\<close> and every fallback list (the default one when
  none is given), the candidate list is \<open>m\<close> followed by the fallback entries
  different from \<open>m\<close>, in their order; \<open>m\<close> is its first element and occurs in it
  exactly once, also when the fallback list contains \<open>m\<close>. With the default
  fallback list no candidate is repeated at all.
\<close>

theorem models_to_try_dedup:
  "models_to_try m (Some fallback) = m # filter (\<lambda>x. x \<noteq> m) fallback
   \<and> models_to_try m None = m # filter (\<lambda>x. x \<noteq> m) FALLBACK_MODELS
   \<and> hd (models_to_try m fb) = m
   \<and> count_list (models_to_try m fb) m = 1
   \<and> m \<notin> set (tl (models_to_try m fb))
   \<and> subseq (tl (models_to_try m (Some fallback))) fallback
   \<and> set (models_to_try m (Some fallback)) = insert m (set fallback)
   \<and> distinct (models_to_try m None)"
proof -
  have cnt: "\<And>xs. count_list (filter (\<lambda>x. x \<noteq> m) xs) m = 0"
    by (simp add: count_list_0_iff)
  have "distinct FALLBACK_MODELS"
    by (simp add: FALLBACK_MODELS_def)
  then have "distinct (m # filter (\<lambda>x. x \<noteq> m) FALLBACK_MODELS)"
    by simp
  then have dflt: "distinct (models_to_try m None)"
    by (simp add: models_to_try_def)
  have "models_to_try m (Some fallback) = m # filter (\<lambda>x. x \<noteq> m) fallback
   \<and> models_to_try m None = m # filter (\<lambda>x. x \<noteq> m) FALLBACK_MODELS
   \<and> hd (models_to_try m fb) = m
   \<and> count_list (models_to_try m fb) m = 1
   \<and> m \<notin> set (tl (models_to_try m fb))
   \<and> subseq (tl (models_to_try m (Some fallback))) fallback
   \<and> set (models_to_try m (Some fallback)) = insert m (set fallback)"
    by (auto simp: models_to_try_def cnt split: option.splits)
  with dflt show ?thesis by blast
qed

section \<open>Properties of the model-invocation client\<close>

lemma py_in_sublist: "py_in sub s = sublist sub s"
  by (induction s) (simp_all add: sublist_Cons_right)

lemma py_in_set: "py_in sub s \<Longrightarrow> set sub \<subseteq> set s"
  by (simp add: py_in_sublist set_mono_sublist)

lemma str_nat_digits: "set (str_nat n) \<subseteq> set ''0123456789''"
proof (induction n rule: str_nat.induct)
  case (1 n)
  have dc: "\<And>k. k < 10 \<Longrightarrow> digit_char k \<in> set ''0123456789''"
    unfolding digit_char_def by (rule nth_mem) simp
  show ?case
  proof (cases "n < 10")
    case True
    then show ?thesis using dc [of n] by (subst str_nat.simps) simp
  next
    case False
    then have "set (str_nat (n div 10)) \<subseteq> set ''0123456789''" by (rule "1.IH")
    moreover have "digit_char (n mod 10) \<in> set ''0123456789''" by (rule dc) simp
    ultimately show ?thesis using False by (subst str_nat.simps) simp
  qed
qed



lemma digit_char_not_b:
  assumes "k < 10"
  shows "CHR ''b'' \<noteq> digit_char k \<and> CHR ''B'' \<noteq> digit_char k"
proof -
  from assms have "k < 5 \<or> (5 \<le> k \<and> k < 10)" by arith
  then show ?thesis
  proof
    assume "k < 5"
    then have "k = 0 \<or> k = 1 \<or> k = 2 \<or> k = 3 \<or> k = 4" by arith
    then show ?thesis by (elim disjE) (simp_all add: digit_char_def)
  next
    assume "5 \<le> k \<and> k < 10"
    then have "k = 5 \<or> k = 6 \<or> k = 7 \<or> k = 8 \<or> k = 9" by arith
    then show ?thesis by (elim disjE) (simp_all add: digit_char_def)
  qed
qed

lemma str_nat_no_b: "CHR ''b'' \<notin> set (str_nat n) \<and> CHR ''B'' \<notin> set (str_nat n)"
proof (induction n rule: str_nat.induct)
  case (1 n)
  show ?case
  proof (cases "n < 10")
    case True
    then have "str_nat n = [digit_char n]" by (subst str_nat.simps) simp
    with digit_char_not_b [OF True] show ?thesis by simp
  next
    case False
    then have eq: "str_nat n = str_nat (n div 10) @ [digit_char (n mod 10)]"
      by (subst str_nat.simps) simp
    have "n mod 10 < 10" by simp
    from digit_char_not_b [OF this] "1.IH" [OF False] show ?thesis
      unfolding eq by simp
  qed
qed

lemma str_int_no_b: "CHR ''b'' \<notin> set (str_int i) \<and> CHR ''B'' \<notin> set (str_int i)"
  using str_nat_no_b [of "nat i"] str_nat_no_b [of "nat (- i)"]
  by (simp add: str_int_def)

lemma lower_char_b: "lower_char c = CHR ''b'' \<Longrightarrow> c = CHR ''b'' \<or> c = CHR ''B''"
  by (simp add: lower_char_def split: if_splits)


lemma lower_no_b:
  assumes "CHR ''b'' \<notin> set s" "CHR ''B'' \<notin> set s"
  shows "CHR ''b'' \<notin> set (lower s)"
proof
  assume "CHR ''b'' \<in> set (lower s)"
  then obtain c where c: "c \<in> set s" "lower_char c = CHR ''b''"
    unfolding lower_def by (metis imageE list.set_map)
  from lower_char_b [OF c(2)] c(1) assms show False by blast
qed

lemma status_msg_not_memory:
  "\<not> is_memory_error (status_msg code)"
proof -
  let ?s = "status_msg code"
  have "CHR ''b'' \<notin> set ?s" "CHR ''B'' \<notin> set ?s"
    using str_int_no_b [of code] by (simp_all add: status_msg_def)
  then have nb: "CHR ''b'' \<notin> set (lower ?s)" by (rule lower_no_b)
  have "CHR ''b'' \<in> set ''unable to allocate''" "CHR ''b'' \<in> set ''buffer''"
    by simp_all
  with nb py_in_set [of "''unable to allocate''" "lower ?s"] py_in_set [of "''buffer''" "lower ?s"]
  have "\<not> py_in ''unable to allocate'' (lower ?s)" "\<not> py_in ''buffer'' (lower ?s)"
    by blast+
  then show ?thesis by (simp add: is_memory_error_def)
qed

lemma attempt_last_error:
  "(\<exists>x y. attempt m lm le out = Continue x \<and> attempt m lm None out = Continue y)
   \<or> (attempt m lm le out = attempt m lm None out \<and> (\<forall>x. attempt m lm None out \<noteq> Continue x))"
  by (cases out)
     (auto simp: attempt_def on_exception_def error_report_def split: sum.splits option.splits)

lemma advances_iff: "advances m lm out \<longleftrightarrow> (\<exists>x. attempt m lm le out = Continue x)"
  using attempt_last_error [of m lm le out]
  by (auto simp: advances_def split: step.splits)

lemma not_advances: "\<not> advances m lm out \<Longrightarrow> attempt m lm le out = attempt m lm None out"
  using attempt_last_error [of m lm le out] advances_iff [of m lm out le] by auto


lemma try_models_calls:
  "try_models srv p lm n le ms = (r, calls) \<Longrightarrow>
   calls = map (\<lambda>m. Post (generate_request m p)) (take (length calls) ms)
   \<and> length calls \<le> length ms
   \<and> (\<forall>e. r = Exhausted e \<longrightarrow> length calls = length ms)
   \<and> ((\<forall>e. r \<noteq> Exhausted e) \<longrightarrow> calls \<noteq> [])"
proof (induction ms arbitrary: n le r calls)
  case Nil
  then show ?case by auto
next
  case (Cons m ms)
  show ?case
  proof (cases "attempt m lm le (post_generate srv n (generate_request m p))")
    case (Return v)
    with Cons.prems show ?thesis by auto
  next
    case (Raise e)
    with Cons.prems show ?thesis by auto
  next
    case (Continue le')
    obtain r' calls' where rec: "try_models srv p lm (Suc n) le' ms = (r', calls')"
      by (cases "try_models srv p lm (Suc n) le' ms")
    with Continue Cons.prems have eq: "r = r'" "calls = Post (generate_request m p) # calls'"
      by auto
    from Cons.IH [OF rec] show ?thesis unfolding eq by simp
  qed
qed

lemma try_models_stop:
  assumes "try_models srv p lm n le ms = (r, calls)"
    and "i < length calls"
    and "\<not> advances (ms ! i) lm (post_generate srv (n + i) (generate_request (ms ! i) p))"
  shows "length calls = Suc i
         \<and> (case attempt (ms ! i) lm None (post_generate srv (n + i) (generate_request (ms ! i) p)) of
               Return v \<Rightarrow> r = Returned v
             | Raise e \<Rightarrow> r = Raised e
             | Continue x \<Rightarrow> False)"
  using assms
proof (induction ms arbitrary: n le r calls i)
  case Nil
  then show ?case by auto
next
  case (Cons m ms)
  let ?out = "post_generate srv n (generate_request m p)"
  show ?case
  proof (cases i)
    case 0
    with Cons.prems(3) have na: "\<not> advances m lm ?out" by simp
    from not_advances [OF na] have at: "attempt m lm le ?out = attempt m lm None ?out" .
    from na have nc: "\<And>x. attempt m lm None ?out \<noteq> Continue x"
      by (auto simp: advances_def)
    show ?thesis
    proof (cases "attempt m lm None ?out")
      case (Return v)
      with Cons.prems(1) at 0 show ?thesis by auto
    next
      case (Raise e)
      with Cons.prems(1) at 0 show ?thesis by auto
    next
      case (Continue x)
      with nc show ?thesis by blast
    qed
  next
    case (Suc j)
    show ?thesis
    proof (cases "attempt m lm le ?out")
      case (Return v)
      with Cons.prems(1,2) Suc show ?thesis by auto
    next
      case (Raise e)
      with Cons.prems(1,2) Suc show ?thesis by auto
    next
      case (Continue le')
      obtain r' calls' where rec: "try_models srv p lm (Suc n) le' ms = (r', calls')"
        by (cases "try_models srv p lm (Suc n) le' ms")
      with Continue Cons.prems(1) have eq: "r = r'" "calls = Post (generate_request m p) # calls'"
        by auto
      from Cons.prems(2) Suc eq have j: "j < length calls'" by simp
      from Cons.prems(3) Suc
      have "\<not> advances (ms ! j) lm (post_generate srv (Suc n + j) (generate_request (ms ! j) p))"
        by simp
      from Cons.IH [OF rec j this] show ?thesis unfolding eq Suc by simp
    qed
  qed
qed

lemma try_models_exhausted:
  assumes "\<forall>i<length ms. advances (ms ! i) lm (post_generate srv (n + i) (generate_request (ms ! i) p))"
  shows "\<exists>le'. try_models srv p lm n le ms = (Exhausted le', map (\<lambda>m. Post (generate_request m p)) ms)
           \<and> (ms \<noteq> [] \<longrightarrow>
                (\<exists>le0. attempt (last ms) lm le0
                          (post_generate srv (n + length ms - 1) (generate_request (last ms) p))
                        = Continue le'))"
  using assms
proof (induction ms arbitrary: n le)
  case Nil
  then show ?case by simp
next
  case (Cons m ms)
  let ?out = "post_generate srv n (generate_request m p)"
  from Cons.prems have "advances m lm ?out" by fastforce
  then obtain le1 where at: "attempt m lm le ?out = Continue le1"
    using advances_iff [of m lm ?out le] by blast
  have "\<forall>i<length ms. advances (ms ! i) lm (post_generate srv (Suc n + i) (generate_request (ms ! i) p))"
    using Cons.prems by fastforce
  from Cons.IH [OF this, of le1] obtain le' where
    rec: "try_models srv p lm (Suc n) le1 ms = (Exhausted le', map (\<lambda>m. Post (generate_request m p)) ms)"
    and lst: "ms \<noteq> [] \<longrightarrow> (\<exists>le0. attempt (last ms) lm le0
               (post_generate srv (Suc n + length ms - 1) (generate_request (last ms) p)) = Continue le')"
    by blast
  show ?case
  proof (cases "ms = []")
    case True
    with rec at show ?thesis by auto
  next
    case False
    with lst obtain le0 where "attempt (last ms) lm le0
               (post_generate srv (Suc n + length ms - 1) (generate_request (last ms) p)) = Continue le'"
      by blast
    moreover from False have "Suc n + length ms - 1 = n + length (m # ms) - 1" by simp
    ultimately show ?thesis using rec at False by auto
  qed
qed

lemma advances_last:
  assumes "advances lm lm out"
  shows "\<exists>r e. out = Response r \<and> status_code r \<noteq> 200
           \<and> (case json r of
                 Inr d \<Rightarrow> items d ''error'' = Some e
               | Inl x \<Rightarrow> e = status_msg (status_code r) @ '': '' @ take 200 (resp_text r))
           \<and> (\<forall>le. attempt lm lm le out = Continue (Some e))"
proof (cases out)
  case ConnectionError
  with assms show ?thesis by (simp add: advances_def attempt_def)
next
  case Timeout
  with assms show ?thesis by (simp add: advances_def attempt_def)
next
  case (Failure x)
  with assms show ?thesis by (simp add: advances_def attempt_def on_exception_def)
next
  case (Response r)
  show ?thesis
  proof (cases "status_code r = 200")
    case True
    with assms Response show ?thesis
      by (simp add: advances_def attempt_def on_exception_def split: sum.splits option.splits)
  next
    case False
    let ?st = "status_msg (status_code r)"
    show ?thesis
    proof (cases "json r")
      case (Inl x)
      let ?e = "?st @ '': '' @ take 200 (resp_text r)"
      have er: "\<And>le. error_report r le = (?e, Some ?e)"
        using Inl by (simp add: error_report_def)
      from assms Response False have "is_memory_error ?e"
        by (simp add: advances_def attempt_def on_exception_def er split: if_splits)
      then have "\<forall>le. attempt lm lm le out = Continue (Some ?e)"
        using Response False by (simp add: attempt_def er)
      with Response False Inl show ?thesis by simp
    next
      case (Inr d)
      show ?thesis
      proof (cases "items d ''error''")
        case None
        have er: "\<And>le. error_report r le = (?st, le)"
          using Inr None by (simp add: error_report_def)
        have "\<not> is_memory_error ?st" by (rule status_msg_not_memory)
        with assms Response False show ?thesis
          by (simp add: advances_def attempt_def on_exception_def er)
      next
        case (Some e)
        have er: "\<And>le. error_report r le = (?st @ '': '' @ e, Some e)"
          using Inr Some by (simp add: error_report_def)
        from assms Response False have "is_memory_error (?st @ '': '' @ e)"
          by (simp add: advances_def attempt_def on_exception_def er split: if_splits)
        then have "\<forall>le. attempt lm lm le out = Continue (Some e)"
          using Response False by (simp add: attempt_def er)
        with Response False Inr Some show ?thesis by simp
      qed
    qed
  qed
qed

lemma models_to_try_nonempty: "models_to_try m fb \<noteq> []"
  by (simp add: models_to_try_def)

lemma memory_failure_report:
  "error_report memory_failure le
   = (status_msg 500 @ '': '' @ ''unable to allocate CPU buffer'', Some ''unable to allocate CPU buffer'')"
  by (simp add: error_report_def memory_failure_def)

lemma is_memory_error_append: "is_memory_error e \<Longrightarrow> is_memory_error (a @ e)"
  by (auto simp: is_memory_error_def py_in_sublist lower_def intro: sublist_appendI dest: sublist_order.order_trans)

lemma memory_failure_is_memory:
  "is_memory_error (status_msg 500 @ '': '' @ ''unable to allocate CPU buffer'')"
proof -
  have "is_memory_error ''unable to allocate CPU buffer''"
    by (simp add: is_memory_error_def lower_def lower_char_def)
  then have "is_memory_error ((status_msg 500 @ '': '') @ ''unable to allocate CPU buffer'')"
    by (rule is_memory_error_append)
  then show ?thesis by simp
qed

lemma attempt_memory_failure:
  "attempt m lm le (Response memory_failure) = Continue (Some ''unable to allocate CPU buffer'')"
proof -
  have "status_code memory_failure \<noteq> 200" by (simp add: memory_failure_def)
  then show ?thesis
    using memory_failure_is_memory
    by (simp add: attempt_def memory_failure_report)
qed


lemma attempt_connection_error:
  "attempt m lm le ConnectionError = Raise (Exception cannot_connect_msg)"
  by (simp add: attempt_def)

lemma attempt_timeout:
  "attempt m lm le Timeout = (if m \<noteq> lm then Continue le else Raise (Exception timed_out_msg))"
  by (simp add: attempt_def)

text \<open>
  C2. In any run of \<open>query_ollama\<close>, for any prompt, requested model, fallback list
  and server: if a generation request that the client made failed with a
  \<open>ConnectionError\<close>, the client raises the fatal "Cannot connect to Ollama ...
  Start it with: ollama serve" error, and that request is the last call of the
  run: the calls made are exactly the requests for the candidates up to this one,
  no later candidate is tried and the model list is not queried.
\<close>

theorem query_ollama_connection_error:
  assumes run: "query_ollama srv p m fb = (res, calls)"
    and i: "i < length calls"
    and req: "calls ! i = Post req"
    and out: "post_generate srv i req = ConnectionError"
  shows "res = Inl (Exception cannot_connect_msg)
       \<and> length calls = Suc i
       \<and> calls = map (\<lambda>c. Post (generate_request c p)) (take (Suc i) (models_to_try m fb))"
proof -
  let ?cs = "models_to_try m fb"
  obtain r calls' where tm: "try_models srv p (last ?cs) 0 None ?cs = (r, calls')"
    by (cases "try_models srv p (last ?cs) 0 None ?cs")
  from try_models_calls [OF tm]
  have shape: "calls' = map (\<lambda>c. Post (generate_request c p)) (take (length calls') ?cs)"
    and len: "length calls' \<le> length ?cs" by simp_all
  have calls: "calls = calls' \<or> calls = calls' @ [GetTags]"
    using run tm by (auto simp: query_ollama_def Let_def split: loop_result.splits)
  have i': "i < length calls'"
  proof (rule ccontr)
    assume "\<not> i < length calls'"
    with calls i have "calls = calls' @ [GetTags]" "i = length calls'" by auto
    then have "calls ! i = GetTags" by simp
    with req show False by simp
  qed
  with calls have "calls ! i = calls' ! i" by (auto simp: nth_append)
  also have "\<dots> = Post (generate_request (?cs ! i) p)"
    using i' len by (subst shape) simp
  finally have rq: "req = generate_request (?cs ! i) p" using req by simp
  have "attempt (?cs ! i) (last ?cs) None (post_generate srv (0 + i) (generate_request (?cs ! i) p))
        = Raise (Exception cannot_connect_msg)"
    using out rq by (simp add: attempt_def)
  moreover from this
  have "\<not> advances (?cs ! i) (last ?cs) (post_generate srv (0 + i) (generate_request (?cs ! i) p))"
    by (simp add: advances_def)
  ultimately have stop: "length calls' = Suc i" "r = Raised (Exception cannot_connect_msg)"
    using try_models_stop [OF tm i'] by simp_all
  from run tm stop have "res = Inl (Exception cannot_connect_msg)" "calls = calls'"
    by (simp_all add: query_ollama_def)
  with stop shape show ?thesis by simp
qed

text \<open>
  C2 at a run of three candidates where the first gets an out-of-memory error and
  the second request finds the server unreachable: the third is never tried.
\<close>

theorem query_ollama_connection_error_witness:
  "query_ollama unreachable_server ''q'' ''a'' (Some [''b'', ''c''])
   = (Inl (Exception cannot_connect_msg),
      [Post (generate_request ''a'' ''q''), Post (generate_request ''b'' ''q'')])
   \<and> post_generate unreachable_server 1 (generate_request ''b'' ''q'') = ConnectionError
   \<and> models_to_try ''a'' (Some [''b'', ''c'']) = [''a'', ''b'', ''c'']"
proof -
  obtain res calls where run: "query_ollama unreachable_server ''q'' ''a'' (Some [''b'', ''c'']) = (res, calls)"
    by (cases "query_ollama unreachable_server ''q'' ''a'' (Some [''b'', ''c''])")
  have cs: "models_to_try ''a'' (Some [''b'', ''c'']) = [''a'', ''b'', ''c'']"
    by (simp add: models_to_try_def)
  have calls: "calls = [Post (generate_request ''a'' ''q''), Post (generate_request ''b'' ''q'')]"
    using run
    by (auto simp: query_ollama_def cs unreachable_server_def attempt_memory_failure
        attempt_connection_error)
  have out: "post_generate unreachable_server 1 (generate_request ''b'' ''q'') = ConnectionError"
    by (simp add: unreachable_server_def)
  have "1 < length calls" "calls ! 1 = Post (generate_request ''b'' ''q'')"
    by (simp_all add: calls)
  from query_ollama_connection_error [OF run this out] run calls out cs
  show ?thesis by simp
qed

text \<open>
  C3 fails on the code where the fallback list repeats a name. The handler decides
  whether a candidate is the last one by comparing names,
  \<open>attempt_model != models_to_try[-1]\<close>, not positions. With the requested model
  \<open>a\<close> and the fallback list \<open>b, c, b\<close> the candidates are \<open>a, b, c, b\<close>; when every
  request times out, the time-out of the first \<open>b\<close> (the second candidate) already
  raises the time-out error, although the candidates \<open>c\<close> and \<open>b\<close> remain untried.
\<close>

theorem query_ollama_timeout_duplicate_fallback:
  "models_to_try ''a'' (Some [''b'', ''c'', ''b'']) = [''a'', ''b'', ''c'', ''b'']
   \<and> query_ollama timeout_server ''q'' ''a'' (Some [''b'', ''c'', ''b''])
     = (Inl (Exception timed_out_msg),
        [Post (generate_request ''a'' ''q''), Post (generate_request ''b'' ''q'')])"
  by (simp add: query_ollama_def models_to_try_def timeout_server_def attempt_timeout)

text \<open>
  C8. If every candidate makes the loop go on (for the last candidate only a
  non-200 response whose error message has "unable to allocate" or "buffer" does),
  then \<open>query_ollama\<close> has asked for every candidate once, in order, then queries
  the installed-model list, and raises one error: "All models failed. Last error: "
  followed by the error of the last candidate's response (its \<open>"error"\<close> value, or
  the status line with the first 200 characters of the body when the body does not
  decode), followed by the remediation text, whose third item lists the first 5
  installed models when the list is not empty. The list is empty when the listing
  request raises, answers with another status than 200, or has a body that does
  not decode.
\<close>

theorem query_ollama_all_models_failed:
  assumes "\<forall>i < length (models_to_try m fb).
             advances (models_to_try m fb ! i) (last (models_to_try m fb))
               (post_generate srv i (generate_request (models_to_try m fb ! i) p))"
  shows "\<exists>r e.
           post_generate srv (length (models_to_try m fb) - 1)
             (generate_request (last (models_to_try m fb)) p) = Response r
         \<and> status_code r \<noteq> 200
         \<and> (case json r of
               Inr d \<Rightarrow> items d ''error'' = Some e
             | Inl x \<Rightarrow> e = status_msg (status_code r) @ '': '' @ take 200 (resp_text r))
         \<and> query_ollama srv p m fb
             = (Inl (Exception (''All models failed. Last error: '' @ e @ ''\<newline>\<newline>''
                                @ remediation (get_available_models (get_tags srv)))),
                map (\<lambda>c. Post (generate_request c p)) (models_to_try m fb) @ [GetTags])
         \<and> (get_available_models (get_tags srv) \<noteq> [] \<longrightarrow>
              remediation (get_available_models (get_tags srv))
              = ''Try:\<newline>''
                @ ''1. Restart Ollama: Close and run 'ollama serve' again\<newline>''
                @ ''2. Free up RAM: Close other applications\<newline>''
                @ ''3. Available models: ''
                @ join '', '' (take 5 (get_available_models (get_tags srv))) @ ''\<newline>'')
         \<and> (get_tags srv = TagsFailure
              \<or> (\<exists>code body. get_tags srv = TagsResponse code body
                     \<and> (code \<noteq> 200 \<or> (\<exists>exc. body = Inl exc)))
            \<longrightarrow> get_available_models (get_tags srv) = [])"
proof -
  let ?cs = "models_to_try m fb"
  let ?av = "get_available_models (get_tags srv)"
  have ne: "?cs \<noteq> []" by (rule models_to_try_nonempty)
  from assms have "\<forall>i<length ?cs. advances (?cs ! i) (last ?cs)
                      (post_generate srv (0 + i) (generate_request (?cs ! i) p))"
    by simp
  from try_models_exhausted [OF this, of None] ne obtain le' le0 where
    tm: "try_models srv p (last ?cs) 0 None ?cs
         = (Exhausted le', map (\<lambda>c. Post (generate_request c p)) ?cs)"
    and at: "attempt (last ?cs) (last ?cs) le0
               (post_generate srv (0 + length ?cs - 1) (generate_request (last ?cs) p))
             = Continue le'"
    by blast
  let ?out = "post_generate srv (length ?cs - 1) (generate_request (last ?cs) p)"
  from at have "advances (last ?cs) (last ?cs) ?out"
    using advances_iff [of "last ?cs" "last ?cs" ?out le0] by simp
  from advances_last [OF this] obtain r e where
    r: "?out = Response r" "status_code r \<noteq> 200"
    and e: "case json r of
              Inr d \<Rightarrow> items d ''error'' = Some e
            | Inl x \<Rightarrow> e = status_msg (status_code r) @ '': '' @ take 200 (resp_text r)"
    and cont: "\<forall>le. attempt (last ?cs) (last ?cs) le ?out = Continue (Some e)"
    by blast
  from cont at have le': "le' = Some e" by simp
  have run: "query_ollama srv p m fb
             = (Inl (Exception (''All models failed. Last error: '' @ e @ ''\<newline>\<newline>''
                                @ remediation ?av)),
                map (\<lambda>c. Post (generate_request c p)) ?cs @ [GetTags])"
    using tm le' by (simp add: query_ollama_def error_suggestion_def)
  have rem: "?av \<noteq> [] \<longrightarrow>
              remediation ?av
              = ''Try:\<newline>''
                @ ''1. Restart Ollama: Close and run 'ollama serve' again\<newline>''
                @ ''2. Free up RAM: Close other applications\<newline>''
                @ ''3. Available models: '' @ join '', '' (take 5 ?av) @ ''\<newline>''"
    by (simp add: remediation_def)
  have fail: "get_tags srv = TagsFailure
              \<or> (\<exists>code body. get_tags srv = TagsResponse code body
                     \<and> (code \<noteq> 200 \<or> (\<exists>exc. body = Inl exc)))
            \<longrightarrow> ?av = []"
    by (auto simp: get_available_models_def)
  from r e run rem fail show ?thesis by blast
qed

text \<open>
  C8 on the server that is out of memory for every model and lists two installed
  models, with one fallback model.
\<close>

theorem query_ollama_all_models_failed_witness:
  "query_ollama out_of_memory_server ''q'' ''a'' (Some [''b''])
   = (Inl (Exception (''All models failed. Last error: '' @ ''unable to allocate CPU buffer''
                      @ ''\<newline>\<newline>'' @ remediation [''tinyllama'', ''phi''])),
      [Post (generate_request ''a'' ''q''), Post (generate_request ''b'' ''q''), GetTags])
   \<and> advances ''a'' ''b'' (post_generate out_of_memory_server 0 (generate_request ''a'' ''q''))
   \<and> advances ''b'' ''b'' (post_generate out_of_memory_server 1 (generate_request ''b'' ''q''))
   \<and> get_available_models (get_tags out_of_memory_server) \<noteq> []"
proof -
  have cs: "models_to_try ''a'' (Some [''b'']) = [''a'', ''b'']"
    by (simp add: models_to_try_def)
  have adv: "\<And>n req m lm. advances m lm (post_generate out_of_memory_server n req)"
    by (simp add: advances_def out_of_memory_server_def attempt_memory_failure)
  have av: "get_available_models (get_tags out_of_memory_server) = [''tinyllama'', ''phi'']"
    by (simp add: get_available_models_def out_of_memory_server_def)
  have hyp: "\<forall>i < length (models_to_try ''a'' (Some [''b''])).
             advances (models_to_try ''a'' (Some [''b'']) ! i) (last (models_to_try ''a'' (Some [''b''])))
               (post_generate out_of_memory_server i
                  (generate_request (models_to_try ''a'' (Some [''b'']) ! i) ''q''))"
    using adv by blast
  from query_ollama_all_models_failed [OF hyp] obtain r e where
    r: "post_generate out_of_memory_server (length (models_to_try ''a'' (Some [''b''])) - 1)
          (generate_request (last (models_to_try ''a'' (Some [''b'']))) ''q'') = Response r"
    and e: "case json r of
              Inr d \<Rightarrow> items d ''error'' = Some e
            | Inl x \<Rightarrow> e = status_msg (status_code r) @ '': '' @ take 200 (resp_text r)"
    and run: "query_ollama out_of_memory_server ''q'' ''a'' (Some [''b''])
             = (Inl (Exception (''All models failed. Last error: '' @ e @ ''\<newline>\<newline>''
                  @ remediation (get_available_models (get_tags out_of_memory_server)))),
                map (\<lambda>c. Post (generate_request c ''q'')) (models_to_try ''a'' (Some [''b''])) @ [GetTags])"
    by blast
  from r have "r = memory_failure" by (simp add: out_of_memory_server_def)
  with e have "e = ''unable to allocate CPU buffer''" by (simp add: memory_failure_def)
  with run av cs adv show ?thesis by simp
qed

section \<open>Properties of question answering\<close>

lemma py_in_middle: "py_in sub (a @ sub @ b)"
  by (simp add: py_in_sublist sublist_def) blast

lemma py_in_end: "py_in sub (a @ sub)"
  using py_in_middle [of sub a "[]"] by simp

lemma is_memory_error_middle:
  assumes "is_memory_error e"
  shows "is_memory_error (a @ e @ b)"
proof -
  have mono: "\<And>pat. py_in pat (lower e) \<Longrightarrow> py_in pat (lower (a @ e @ b))"
  proof -
    fix pat :: string
    assume "py_in pat (lower e)"
    then have "sublist pat (lower e)" by (simp add: py_in_sublist)
    moreover have "sublist (lower e) (lower a @ lower e @ lower b)"
      by (simp add: sublist_def) blast
    ultimately have "sublist pat (lower a @ lower e @ lower b)"
      by (rule sublist_order.order_trans)
    then show "py_in pat (lower (a @ e @ b))"
      by (simp add: py_in_sublist lower_def)
  qed
  from assms show ?thesis
    unfolding is_memory_error_def using mono by blast
qed

lemma error_answer_contains:
  "py_in error_msg (error_answer error_msg)
   \<and> (is_memory_error error_msg \<longrightarrow> py_in memory_checklist (error_answer error_msg))
   \<and> (\<not> is_memory_error error_msg \<longrightarrow> py_in generic_checklist (error_answer error_msg))"
proof -
  have "py_in error_msg ((warning_sign @ '' Memory Error: '') @ error_msg
          @ (''\<newline>\<newline>'' @ memory_checklist))"
    and "py_in error_msg ((warning_sign @ '' Error: '') @ error_msg
          @ (''\<newline>\<newline>'' @ generic_checklist))"
    by (rule py_in_middle)+
  moreover
  have "py_in memory_checklist ((warning_sign @ '' Memory Error: '' @ error_msg @ ''\<newline>\<newline>'')
          @ memory_checklist)"
    and "py_in generic_checklist ((warning_sign @ '' Error: '' @ error_msg @ ''\<newline>\<newline>'')
          @ generic_checklist)"
    by (rule py_in_end)+
  ultimately show ?thesis
    by (simp add: error_answer_def)
qed

lemma out_of_memory_run:
  "query_ollama out_of_memory_server p DEFAULT_MODEL None
   = (Inl (Exception (error_suggestion (Some ''unable to allocate CPU buffer'') [''tinyllama'', ''phi''])),
      map (\<lambda>c. Post (generate_request c p)) (models_to_try DEFAULT_MODEL None) @ [GetTags])"
proof -
  have cs: "models_to_try DEFAULT_MODEL None
            = [''llama3.2:1b'', ''llama3.2'', ''llama3:1b'', ''tinyllama'', ''phi'']"
    by (simp add: models_to_try_def DEFAULT_MODEL_def FALLBACK_MODELS_def)
  have av: "get_available_models (get_tags out_of_memory_server) = [''tinyllama'', ''phi'']"
    by (simp add: get_available_models_def out_of_memory_server_def)
  have po: "\<And>n req. post_generate out_of_memory_server n req = Response memory_failure"
    by (simp add: out_of_memory_server_def)
  show ?thesis
    by (simp add: query_ollama_def cs av po attempt_memory_failure)
qed

lemma out_of_memory_suggestion:
  "is_memory_error (error_suggestion (Some ''unable to allocate CPU buffer'') available)"
proof -
  have "is_memory_error ''unable to allocate CPU buffer''"
    by (simp add: is_memory_error_def lower_def lower_char_def)
  then have "is_memory_error (''All models failed. Last error: '' @ ''unable to allocate CPU buffer''
                @ (''\<newline>\<newline>'' @ remediation available))"
    by (rule is_memory_error_middle)
  then show ?thesis by (simp add: error_suggestion_def)
qed

lemma answering_run:
  "query_ollama answering_server p DEFAULT_MODEL None
   = (Inr ''Paris.'', [Post (generate_request DEFAULT_MODEL p)])"
proof -
  have cs: "models_to_try DEFAULT_MODEL None
            = DEFAULT_MODEL # filter (\<lambda>m. m \<noteq> DEFAULT_MODEL) FALLBACK_MODELS"
    by (simp add: models_to_try_def)
  have at: "\<And>m lm le n req. attempt m lm le (post_generate answering_server n req) = Return ''Paris.''"
    by (simp add: attempt_def answering_server_def)
  show ?thesis
    by (simp add: query_ollama_def cs at)
qed

text \<open>
  C6. When retrieval returns at least one chunk and \<open>query_ollama\<close> raises, with the
  error text \<open>error_msg\<close>, \<open>ask_question\<close> returns a normal reply (no
  \<open>HTTPException\<close>) with an empty source list, whose answer is the warning sign, a
  heading, \<open>error_msg\<close> itself, a blank line and a checklist: the memory checklist
  exactly when \<open>error_msg\<close>, lowered, contains "unable to allocate" or "buffer",
  and the generic checklist otherwise. The two checklists differ.
\<close>

theorem ask_question_model_failure:
  assumes "query [question] 3 = Inr results"
    and "documents results = Some (first_docs # other_docs)"
    and "first_docs \<noteq> []"
    and "query_ollama srv (build_prompt (join ''\<newline>\<newline>'' first_docs) question) DEFAULT_MODEL None
         = (Inl (Exception error_msg), calls)"
  shows "ask_question srv query question
         = (Inr \<lparr>answer = error_answer error_msg, sources = []\<rparr>, calls)
       \<and> error_answer error_msg
         = (if py_in ''unable to allocate'' (lower error_msg) \<or> py_in ''buffer'' (lower error_msg)
            then warning_sign @ '' Memory Error: '' @ error_msg @ ''\<newline>\<newline>'' @ memory_checklist
            else warning_sign @ '' Error: '' @ error_msg @ ''\<newline>\<newline>'' @ generic_checklist)
       \<and> py_in error_msg (error_answer error_msg)
       \<and> memory_checklist \<noteq> generic_checklist"
proof -
  have run: "ask_question srv query question
             = (Inr \<lparr>answer = error_answer error_msg, sources = []\<rparr>, calls)"
    using assms by (simp add: ask_question_def)
  have sel: "error_answer error_msg
         = (if py_in ''unable to allocate'' (lower error_msg) \<or> py_in ''buffer'' (lower error_msg)
            then warning_sign @ '' Memory Error: '' @ error_msg @ ''\<newline>\<newline>'' @ memory_checklist
            else warning_sign @ '' Error: '' @ error_msg @ ''\<newline>\<newline>'' @ generic_checklist)"
    by (simp add: error_answer_def is_memory_error_def)
  have ne: "memory_checklist \<noteq> generic_checklist"
    by (simp add: memory_checklist_def generic_checklist_def)
  from run sel ne error_answer_contains [of error_msg] show ?thesis by blast
qed

text \<open>
  C6 on the server that answers every request with status 500 and an error that
  contains "unable to allocate": all five default candidates fail, and the answer
  carries the memory checklist.
\<close>

theorem ask_question_model_failure_witness:
  "ask_question out_of_memory_server one_document_query ''What is the capital of France?''
   = (Inr \<lparr>answer = warning_sign @ '' Memory Error: ''
                @ error_suggestion (Some ''unable to allocate CPU buffer'') [''tinyllama'', ''phi'']
                @ ''\<newline>\<newline>'' @ memory_checklist,
          sources = []\<rparr>,
      map (\<lambda>c. Post (generate_request c
             (build_prompt (join ''\<newline>\<newline>'' [''Paris is the capital of France.''])
                ''What is the capital of France?'')))
        (models_to_try DEFAULT_MODEL None) @ [GetTags])"
proof -
  let ?q = "''What is the capital of France?''"
  let ?r = "\<lparr>documents = Some [[''Paris is the capital of France.'']], metadatas = None\<rparr>"
  let ?e = "error_suggestion (Some ''unable to allocate CPU buffer'') [''tinyllama'', ''phi'']"
  have q: "one_document_query [?q] 3 = Inr ?r"
    by (simp add: one_document_query_def)
  have d: "documents ?r = Some ([''Paris is the capital of France.''] # [])" by simp
  have ne: "[''Paris is the capital of France.''] \<noteq> []" by simp
  have mem: "py_in ''unable to allocate'' (lower ?e) \<or> py_in ''buffer'' (lower ?e)"
    using out_of_memory_suggestion [of "[''tinyllama'', ''phi'']"]
    by (simp only: is_memory_error_def)
  let ?p = "build_prompt (join ''\<newline>\<newline>'' [''Paris is the capital of France.'']) ?q"
  from ask_question_model_failure
         [where query = one_document_query and question = ?q, OF q d ne out_of_memory_run [of ?p]] mem
  show ?thesis by simp
qed

text \<open>
  C7. For every question, server and distance: when the store holds no chunk, the
  query finds no document and \<open>ask_question\<close> returns the fixed answer "No documents
  found. Please upload documents first." with an empty source list, and makes no
  call to the model server. The same holds for any retrieval result without
  documents: the key missing or \<open>None\<close>, an empty list, or an empty first list.
\<close>

theorem ask_question_no_documents:
  "ask_question srv (\<lambda>query_texts n_results. Inr (collection_query distance [] query_texts n_results))
     question
   = (Inr \<lparr>answer = ''No documents found. Please upload documents first.'', sources = []\<rparr>, [])
   \<and> (query [question] 3 = Inr results
        \<and> (documents results = None \<or> documents results = Some []
            \<or> (\<exists>other_docs. documents results = Some ([] # other_docs)))
      \<longrightarrow> ask_question srv query question
          = (Inr \<lparr>answer = ''No documents found. Please upload documents first.'', sources = []\<rparr>, []))"
  by (auto simp: ask_question_def collection_query_def no_documents_answer_def)

text \<open>
  C7 on a retrieval result whose first document list is empty, and on the empty
  store.
\<close>

theorem ask_question_no_documents_witness:
  "ask_question answering_server
     (\<lambda>query_texts n_results. Inr \<lparr>documents = Some [[]], metadatas = Some [[]]\<rparr>) ''Anything?''
   = (Inr \<lparr>answer = ''No documents found. Please upload documents first.'', sources = []\<rparr>, [])
   \<and> ask_question answering_server
       (\<lambda>query_texts n_results. Inr (collection_query (\<lambda>q d. 0) [] query_texts n_results))
       ''Anything?''
     = (Inr \<lparr>answer = ''No documents found. Please upload documents first.'', sources = []\<rparr>, [])"
  using ask_question_no_documents
    [where srv = answering_server and distance = "\<lambda>q d. 0" and question = "''Anything?''"
       and query = "\<lambda>query_texts n_results. Inr \<lparr>documents = Some [[]], metadatas = Some [[]]\<rparr>"
       and results = "\<lparr>documents = Some [[]], metadatas = Some [[]]\<rparr>"]
  by simp

text \<open>
  C10. When retrieval returns at least one document, the result carries no metadata
  entries (the key missing or \<open>None\<close>, an empty list, or an empty first list), and
  \<open>query_ollama\<close> returns an answer, \<open>ask_question\<close> returns that answer in a normal
  reply with an empty source list.
\<close>

theorem ask_question_without_metadata:
  assumes "query [question] 3 = Inr results"
    and "documents results = Some (first_docs # other_docs)"
    and "first_docs \<noteq> []"
    and "metadatas results = None \<or> metadatas results = Some []
         \<or> (\<exists>other_metas. metadatas results = Some ([] # other_metas))"
    and "query_ollama srv (build_prompt (join ''\<newline>\<newline>'' first_docs) question) DEFAULT_MODEL None
         = (Inr model_answer, calls)"
  shows "ask_question srv query question
         = (Inr \<lparr>answer = model_answer, sources = []\<rparr>, calls)"
  using assms by (auto simp: ask_question_def)

text \<open>
  C10 on a collection that returns one document and no metadata, with a server
  that answers the first request.
\<close>

theorem ask_question_without_metadata_witness:
  "ask_question answering_server one_document_query ''What is the capital of France?''
   = (Inr \<lparr>answer = ''Paris.'', sources = []\<rparr>,
      [Post (generate_request DEFAULT_MODEL
         (build_prompt (join ''\<newline>\<newline>'' [''Paris is the capital of France.''])
            ''What is the capital of France?''))])"
proof -
  let ?q = "''What is the capital of France?''"
  let ?r = "\<lparr>documents = Some [[''Paris is the capital of France.'']], metadatas = None\<rparr>"
  have q: "one_document_query [?q] 3 = Inr ?r"
    by (simp add: one_document_query_def)
  have d: "documents ?r = Some ([''Paris is the capital of France.''] # [])" by simp
  have ne: "[''Paris is the capital of France.''] \<noteq> []" by simp
  have m: "metadatas ?r = None \<or> metadatas ?r = Some []
           \<or> (\<exists>other_metas. metadatas ?r = Some ([] # other_metas))" by simp
  let ?p = "build_prompt (join ''\<newline>\<newline>'' [''Paris is the capital of France.'']) ?q"
  from ask_question_without_metadata
         [where query = one_document_query and question = ?q, OF q d ne m answering_run [of ?p]]
  show ?thesis .
qed

section \<open>Properties of the ingestion\<close>

lemma digit_char_inj:
  assumes "k < 10" "l < 10" "digit_char k = digit_char l"
  shows "k = l"
proof -
  have "distinct ''0123456789''" by simp
  moreover have "k < length ''0123456789''" "l < length ''0123456789''"
    using assms by simp_all
  ultimately show ?thesis
    using assms(3) unfolding digit_char_def by (simp only: nth_eq_iff_index_eq)
qed

lemma str_nat_nonempty: "str_nat n \<noteq> []"
  by (subst str_nat.simps) simp

lemma str_nat_inj: "str_nat n = str_nat m \<Longrightarrow> n = m"
proof (induction n arbitrary: m rule: str_nat.induct)
  case (1 n)
  show ?case
  proof (cases "n < 10")
    case n: True
    then have sn: "str_nat n = [digit_char n]" by (subst str_nat.simps) simp
    show ?thesis
    proof (cases "m < 10")
      case True
      then have "str_nat m = [digit_char m]" by (subst str_nat.simps) simp
      with sn "1.prems" have "digit_char n = digit_char m" by simp
      with n True show ?thesis by (rule digit_char_inj)
    next
      case False
      then have "str_nat m = str_nat (m div 10) @ [digit_char (m mod 10)]"
        by (subst str_nat.simps) simp
      with sn "1.prems" have "str_nat (m div 10) = []" by simp
      with str_nat_nonempty show ?thesis by blast
    qed
  next
    case n: False
    then have sn: "str_nat n = str_nat (n div 10) @ [digit_char (n mod 10)]"
      by (subst str_nat.simps) simp
    show ?thesis
    proof (cases "m < 10")
      case True
      then have "str_nat m = [digit_char m]" by (subst str_nat.simps) simp
      with sn "1.prems" have "str_nat (n div 10) = []" by simp
      with str_nat_nonempty show ?thesis by blast
    next
      case False
      then have "str_nat m = str_nat (m div 10) @ [digit_char (m mod 10)]"
        by (subst str_nat.simps) simp
      with sn "1.prems" have a: "str_nat (n div 10) = str_nat (m div 10)"
        and b: "digit_char (n mod 10) = digit_char (m mod 10)" by simp_all
      from "1.IH" [OF n a] have d: "n div 10 = m div 10" .
      have "n mod 10 = m mod 10"
        by (rule digit_char_inj [OF _ _ b]) simp_all
      with d show ?thesis by (metis div_mult_mod_eq)
    qed
  qed
qed

lemma str_nat_no_underscore: "CHR ''_'' \<notin> set (str_nat n)"
proof -
  have "CHR ''_'' \<notin> set ''0123456789''" by simp
  with str_nat_digits [of n] show ?thesis by blast
qed

lemma split_at_last_separator:
  assumes "f @ c # s = g @ c # t" and "c \<notin> set s" and "c \<notin> set t"
  shows "f = g \<and> s = t"
proof -
  from assms(1) obtain us where
    "(f = g @ us \<and> us @ c # s = c # t) \<or> (f @ us = g \<and> c # s = us @ c # t)"
    by (auto simp: append_eq_append_conv2)
  then show ?thesis
  proof
    assume h: "f = g @ us \<and> us @ c # s = c # t"
    show ?thesis
    proof (cases us)
      case Nil
      with h show ?thesis by simp
    next
      case (Cons u us')
      with h have "t = us' @ c # s" by simp
      with assms(3) show ?thesis by simp
    qed
  next
    assume h: "f @ us = g \<and> c # s = us @ c # t"
    show ?thesis
    proof (cases us)
      case Nil
      with h show ?thesis by simp
    next
      case (Cons u us')
      with h have "s = us' @ c # t" by simp
      with assms(2) show ?thesis by simp
    qed
  qed
qed

lemma chunk_id_inj: "(chunk_id f i = chunk_id g j) = (f = g \<and> i = j)"
proof
  assume "chunk_id f i = chunk_id g j"
  then have "f @ CHR ''_'' # str_nat i = g @ CHR ''_'' # str_nat j"
    by (simp add: chunk_id_def)
  from split_at_last_separator [OF this str_nat_no_underscore str_nat_no_underscore]
  show "f = g \<and> i = j" by (auto dest: str_nat_inj)
next
  assume "f = g \<and> i = j"
  then show "chunk_id f i = chunk_id g j" by simp
qed

lemma build_entries_ids:
  "map entry_id (build_entries f cs) = map (chunk_id f) [0 ..< length cs]"
  by (simp add: build_entries_def chunk_entry_def)

lemma build_entries_distinct: "distinct (map entry_id (build_entries f cs))"
  unfolding build_entries_ids
  by (simp add: distinct_map inj_on_def chunk_id_inj)

lemma build_entries_well_formed: "e \<in> set (build_entries f cs) \<Longrightarrow> well_formed e"
  by (auto simp: build_entries_def chunk_entry_def chunk_id_def well_formed_def)

lemma disjoint_ids:
  assumes "\<And>e. e \<in> set ys \<Longrightarrow> entry_id e \<notin> set (map entry_id xs)"
  shows "set (map entry_id xs) \<inter> set (map entry_id ys) = {}"
proof -
  have "\<And>x. x \<in> set (map entry_id xs) \<Longrightarrow> x \<in> set (map entry_id ys) \<Longrightarrow> False"
  proof -
    fix x
    assume a: "x \<in> set (map entry_id xs)" and "x \<in> set (map entry_id ys)"
    then obtain e where "e \<in> set ys" "x = entry_id e" by auto
    with a assms show False by blast
  qed
  then show ?thesis by blast
qed

lemma collection_add_invariant:
  assumes "distinct (map entry_id store)" "\<forall>e \<in> set store. well_formed e"
    and "distinct (map entry_id batch)" "\<forall>e \<in> set batch. well_formed e"
    and "collection_add policy store batch = Inr store'"
  shows "distinct (map entry_id store') \<and> (\<forall>e \<in> set store'. well_formed e)"
proof (cases policy)
  case Reject
  with assms(5) have s: "store' = store @ batch"
    and d: "\<not> (\<exists>e \<in> set batch. entry_id e \<in> set (map entry_id store))"
    by (auto simp: collection_add_def split: if_splits)
  have "set (map entry_id store) \<inter> set (map entry_id batch) = {}"
    by (rule disjoint_ids) (use d in blast)
  with assms(1-4) show ?thesis unfolding s by auto
next
  case Skip
  let ?new = "filter (\<lambda>e. entry_id e \<notin> set (map entry_id store)) batch"
  from Skip assms(5) have s: "store' = store @ ?new"
    by (simp add: collection_add_def)
  have "distinct (map entry_id ?new)"
    using assms(3) by (rule distinct_map_filter)
  moreover have "set (map entry_id store) \<inter> set (map entry_id ?new) = {}"
    by (rule disjoint_ids) simp
  moreover have "\<forall>e \<in> set ?new. well_formed e" using assms(4) by simp
  ultimately show ?thesis using assms(1,2) unfolding s by auto
next
  case Replace
  let ?kept = "filter (\<lambda>e. entry_id e \<notin> set (map entry_id batch)) store"
  from Replace assms(5) have s: "store' = ?kept @ batch"
    by (simp add: collection_add_def)
  have "distinct (map entry_id ?kept)"
    using assms(1) by (rule distinct_map_filter)
  moreover have "set (map entry_id batch) \<inter> set (map entry_id ?kept) = {}"
    by (rule disjoint_ids) simp
  then have "set (map entry_id ?kept) \<inter> set (map entry_id batch) = {}" by blast
  moreover have "\<forall>e \<in> set ?kept. well_formed e" using assms(2) by simp
  ultimately show ?thesis using assms(3,4) unfolding s by auto
qed

lemma upload_document_invariant:
  assumes "distinct (map entry_id store)" "\<forall>e \<in> set store. well_formed e"
  shows "distinct (map entry_id (snd (upload_document policy store f extracted)))
       \<and> (\<forall>e \<in> set (snd (upload_document policy store f extracted)). well_formed e)"
proof -
  let ?st = "snd (upload_document policy store f extracted)"
  have "?st = store
        \<or> (\<exists>cs. collection_add policy store (build_entries f cs) = Inr ?st)"
    by (auto simp: upload_document_def Let_def split: sum.splits)
  then show ?thesis
  proof
    assume "?st = store"
    with assms show ?thesis by simp
  next
    assume "\<exists>cs. collection_add policy store (build_entries f cs) = Inr ?st"
    then obtain cs where "collection_add policy store (build_entries f cs) = Inr ?st" ..
    from collection_add_invariant [OF assms build_entries_distinct _ this]
      build_entries_well_formed
    show ?thesis by blast
  qed
qed

lemma apply_operation_invariant:
  assumes "distinct (map entry_id store)" "\<forall>e \<in> set store. well_formed e"
  shows "distinct (map entry_id (apply_operation policy store op))
       \<and> (\<forall>e \<in> set (apply_operation policy store op). well_formed e)"
proof (cases op)
  case (Upload f extracted)
  with upload_document_invariant [OF assms, of policy f extracted] show ?thesis by simp
next
  case Clear
  then show ?thesis by (simp add: delete_and_recreate_def)
qed

lemma foldl_operations_invariant:
  "distinct (map entry_id store) \<Longrightarrow> \<forall>e \<in> set store. well_formed e \<Longrightarrow>
   distinct (map entry_id (foldl (apply_operation policy) store ops))
   \<and> (\<forall>e \<in> set (foldl (apply_operation policy) store ops). well_formed e)"
proof (induction ops arbitrary: store)
  case Nil
  then show ?case by simp
next
  case (Cons op ops)
  from apply_operation_invariant [OF Cons.prems, of policy op]
  have "distinct (map entry_id (apply_operation policy store op))"
    and "\<forall>e \<in> set (apply_operation policy store op). well_formed e" by simp_all
  from Cons.IH [OF this] show ?case by simp
qed


lemma hello_chunks: "chunk_text ''hello world'' 1000 200 = [''hello world'']"
  by (simp add: chunk_text_def chunk_loop.simps py_slice_def slice_bound_def)

lemma hello_not_blank: "\<not> (\<forall>c \<in> set ''hello world''. isspace c)"
  by (simp add: isspace_def)

text \<open>
  C9. After any sequence of uploads and clears, starting from the empty store and
  whatever the engine does with an id that is already stored (reject the batch,
  skip the entry, replace the stored one), no two stored entries share an id, and
  every stored entry has an id of the form file name, underscore, index, with the
  metadata \<open>{source: file name, chunk: index}\<close>. The entries that one upload builds
  have the ids \<open>name_0\<close>, \<open>name_1\<close>, ... and the matching metadata, and two such ids
  are equal only for the same file name and the same index.
\<close>

theorem store_ids_unique:
  "distinct (map entry_id (run_operations policy ops))
   \<and> (\<forall>e \<in> set (run_operations policy ops).
        \<exists>f i. entry_id e = f @ ''_'' @ str_nat i
             \<and> entry_metadata e = \<lparr>source = Some f, chunk = Some (int i)\<rparr>)
   \<and> map entry_id (build_entries f cs) = map (\<lambda>i. f @ ''_'' @ str_nat i) [0 ..< length cs]
   \<and> map entry_metadata (build_entries f cs)
       = map (\<lambda>i. \<lparr>source = Some f, chunk = Some (int i)\<rparr>) [0 ..< length cs]
   \<and> ((f @ ''_'' @ str_nat i = g @ ''_'' @ str_nat j) = (f = g \<and> i = j))"
proof -
  have "distinct (map entry_id ([] :: entry list))" "\<forall>e \<in> set ([] :: entry list). well_formed e"
    by simp_all
  from foldl_operations_invariant [OF this, of policy ops]
  have inv: "distinct (map entry_id (run_operations policy ops))"
    "\<forall>e \<in> set (run_operations policy ops). well_formed e"
    by (simp_all add: run_operations_def)
  have ids: "map entry_id (build_entries f cs) = map (\<lambda>i. f @ ''_'' @ str_nat i) [0 ..< length cs]"
    by (simp add: build_entries_def chunk_entry_def chunk_id_def)
  have metas: "map entry_metadata (build_entries f cs)
       = map (\<lambda>i. \<lparr>source = Some f, chunk = Some (int i)\<rparr>) [0 ..< length cs]"
    by (simp add: build_entries_def chunk_entry_def)
  have inj: "(f @ ''_'' @ str_nat i = g @ ''_'' @ str_nat j) = (f = g \<and> i = j)"
    using chunk_id_inj [of f i g j] by (simp only: chunk_id_def)
  from inv ids metas inj show ?thesis
    unfolding well_formed_def by blast
qed

text \<open>
  C9 on a store that skips existing ids, after the same one-chunk file was
  uploaded twice: one entry, \<open>notes.pdf_0\<close>, is stored.
\<close>

theorem store_ids_unique_witness:
  "run_operations Skip
     [Upload ''notes.pdf'' (Inr ''hello world''), Upload ''notes.pdf'' (Inr ''hello world'')]
   = [\<lparr>entry_id = ''notes.pdf_0'', document = ''hello world'',
       entry_metadata = \<lparr>source = Some ''notes.pdf'', chunk = Some 0\<rparr>\<rparr>]
   \<and> distinct (map entry_id (run_operations Skip
        [Upload ''notes.pdf'' (Inr ''hello world''), Upload ''notes.pdf'' (Inr ''hello world'')]))
   \<and> (\<exists>f i. ''notes.pdf_0'' = f @ ''_'' @ str_nat i
          \<and> \<lparr>source = Some ''notes.pdf'', chunk = Some 0\<rparr> = \<lparr>source = Some f, chunk = Some (int i)\<rparr>)"
proof -
  let ?ops = "[Upload ''notes.pdf'' (Inr ''hello world''), Upload ''notes.pdf'' (Inr ''hello world'')]"
  have s0: "str_nat 0 = ''0''" by (simp add: str_nat.simps digit_char_def)
  have b: "build_entries ''notes.pdf'' [''hello world'']
           = [\<lparr>entry_id = ''notes.pdf_0'', document = ''hello world'',
               entry_metadata = \<lparr>source = Some ''notes.pdf'', chunk = Some 0\<rparr>\<rparr>]"
    by (simp add: build_entries_def chunk_entry_def chunk_id_def s0)
  have run: "run_operations Skip ?ops
             = [\<lparr>entry_id = ''notes.pdf_0'', document = ''hello world'',
                 entry_metadata = \<lparr>source = Some ''notes.pdf'', chunk = Some 0\<rparr>\<rparr>]"
    using hello_not_blank
    by (simp add: run_operations_def upload_document_def hello_chunks b collection_add_def)
  from store_ids_unique [of Skip ?ops] show ?thesis
    unfolding run by simp
qed

end
